theory Spec2Isabelle
  imports Main
begin

section \<open>Data model of the chat endpoint (src/api.ts)\<close>

text \<open>
  The messages of the conversation are the objects that \<^verbatim>\<open>api.ts\<close> pushes on the
  module-level array \<^verbatim>\<open>messages\<close>: the system prompt, \<^verbatim>\<open>{role: "user", content}\<close>,
  the provider's answer as it is received, and
  \<^verbatim>\<open>{role: "tool", tool_call_id, content}\<close>. An absent (or null) field is \<open>None\<close>.
\<close>

datatype role = System | User | Assistant | Tool

record tool_call =
  tc_id :: string
  tc_type :: string
  fn_name :: string
  fn_arguments :: string

record message =
  role :: role
  content :: "string option"
  tool_calls :: "tool_call list option"
  tool_call_id :: "string option"

text \<open>
  A tool as \<^verbatim>\<open>client.listTools()\<close> reports it, and the function spec that the request to
  the provider carries for it. \<open>'j\<close> is the type of decoded JSON values (the input schema of
  a tool, the decoded arguments of a call).
\<close>

record 'j tool_descriptor =
  name :: string
  description :: "string option"
  inputSchema :: 'j

record 'j function_spec =
  fs_type :: string
  fs_name :: string
  fs_description :: "string option"
  fs_parameters :: 'j

record 'j completion_body =
  cb_model :: string
  cb_messages :: "message list"
  cb_tools :: "'j function_spec list option"

text \<open>The result of \<^verbatim>\<open>client.callTool\<close>: content blocks and the error flag.\<close>

record content_item =
  ci_type :: string
  ci_text :: string

record tool_result =
  result_content :: "content_item list"
  isError :: bool

text \<open>A raised JavaScript error; the handlers read its \<^verbatim>\<open>message\<close> and, in the tools,
  \<^verbatim>\<open>JSON.stringify(error.response?.data || "")\<close>, kept here as the serialised text
  (\<open>None\<close> when the error has no response data).\<close>

record js_error =
  err_message :: string
  err_response_data :: "string option"

datatype provider_client = OpenAI | Groq

text \<open>What leaves the process: the session set-up, the completion requests and the tool
  invocations, in the order they are issued.\<close>

datatype 'j event =
    Connect
  | ListTools
  | Completion provider_client "'j completion_body"
  | CallTool string 'j

text \<open>
  The collaborators of the handler. The answers of the provider and of the tool-execution
  endpoint are not determined by the request alone, so each is a function of the events
  issued so far and of the request; an awaited call that rejects is \<open>Inl\<close>.
\<close>

record 'j env =
  openai_api_key :: bool
  groq_api_key :: bool
  connect :: "'j event list \<Rightarrow> js_error option"
  listTools :: "'j event list \<Rightarrow> js_error + 'j tool_descriptor list"
  create :: "'j event list \<Rightarrow> provider_client \<Rightarrow> 'j completion_body \<Rightarrow> js_error + message list"
  callTool :: "'j event list \<Rightarrow> string \<Rightarrow> 'j \<Rightarrow> js_error + tool_result"
  json_parse :: "string \<Rightarrow> js_error + 'j"
  json_stringify :: "content_item list \<Rightarrow> string"

text \<open>The module-level variables of \<^verbatim>\<open>api.ts\<close> (\<open>client\<close>, \<open>openai\<close>, \<open>groq\<close>: whether
  the variable is non-null), with the events issued so far.\<close>

record 'j state =
  client :: bool
  tools :: "'j tool_descriptor list"
  openai :: bool
  groq :: bool
  messages :: "message list"
  trace :: "'j event list"

record request =
  prompt :: "string option"
  provider :: "string option"
  model :: "string option"

datatype payload =
    ErrorPayload string
  | ChatPayload "string option" string string

record response =
  status :: nat
  body :: payload

section \<open>The handler\<close>

definition system_message :: message where
  "system_message =
     \<lparr>role = System,
      content = Some ''You are a helpful assistant. You can use tools to manage users.'',
      tool_calls = None, tool_call_id = None\<rparr>"

definition initial_state :: "'j state" where
  "initial_state =
     \<lparr>client = False, tools = [], openai = False, groq = False,
      messages = [system_message], trace = []\<rparr>"

text \<open>\<^verbatim>\<open>initMcpClient\<close>: the clients of the providers whose key is set, then the session;
  \<open>client\<close> is assigned before \<^verbatim>\<open>connect\<close> is awaited.\<close>

definition initMcpClient :: "'j env \<Rightarrow> 'j state \<Rightarrow> js_error option \<times> 'j state" where
  "initMcpClient e s =
     (let s1 = s\<lparr>openai := openai s \<or> openai_api_key e,
                 groq := groq s \<or> groq_api_key e,
                 client := True\<rparr>;
          s2 = s1\<lparr>trace := trace s1 @ [Connect]\<rparr>
      in case connect e (trace s1) of
           Some err \<Rightarrow> (Some err, s2)
         | None \<Rightarrow>
             (let s3 = s2\<lparr>trace := trace s2 @ [ListTools]\<rparr>
              in case listTools e (trace s2) of
                   Inl err \<Rightarrow> (Some err, s3)
                 | Inr ts \<Rightarrow> (None, s3\<lparr>tools := ts\<rparr>)))"

text \<open>\<^verbatim>\<open>String.prototype.toLowerCase\<close> on the letters A to Z; no other character lowers to a
  letter of \<^verbatim>\<open>"openai"\<close> or \<^verbatim>\<open>"groq"\<close>, the two strings the result is compared with.\<close>

definition lower_char :: "char \<Rightarrow> char" where
  "lower_char c =
     (if 65 \<le> (of_char c :: nat) \<and> (of_char c :: nat) \<le> 90
      then char_of ((of_char c :: nat) + 32) else c)"

definition toLowerCase :: "string \<Rightarrow> string" where
  "toLowerCase = map lower_char"

text \<open>The history limit: \<^verbatim>\<open>if (messages.length > 10) messages = [messages[0], ...messages.slice(-9)]\<close>.\<close>

definition limit_history :: "message list \<Rightarrow> message list" where
  "limit_history ms =
     (if length ms > 10 then ms ! 0 # drop (length ms - 9) ms else ms)"

text \<open>The \<^verbatim>\<open>tools\<close> field of the first request:
  \<^verbatim>\<open>tools.map((tool) => ({type: "function", function: {name, description, parameters}}))\<close>.\<close>

definition function_spec_of :: "'j tool_descriptor \<Rightarrow> 'j function_spec" where
  "function_spec_of t =
     \<lparr>fs_type = ''function'', fs_name = name t,
      fs_description = description t, fs_parameters = inputSchema t\<rparr>"

definition completion_tools :: "'j tool_descriptor list \<Rightarrow> 'j function_spec list" where
  "completion_tools ts = map function_spec_of ts"

definition user_message :: "string \<Rightarrow> message" where
  "user_message p = \<lparr>role = User, content = Some p, tool_calls = None, tool_call_id = None\<rparr>"

definition tool_message :: "'j env \<Rightarrow> tool_call \<Rightarrow> tool_result \<Rightarrow> message" where
  "tool_message e tc r =
     \<lparr>role = Tool, content = Some (json_stringify e (result_content r)),
      tool_calls = None, tool_call_id = Some (tc_id tc)\<rparr>"

text \<open>The loop over \<^verbatim>\<open>message.tool_calls\<close>. A raised error leaves the loop with the
  messages pushed so far.\<close>

fun tool_loop :: "'j env \<Rightarrow> tool_call list \<Rightarrow> 'j state \<Rightarrow> js_error option \<times> 'j state" where
  "tool_loop e [] s = (None, s)"
| "tool_loop e (tc # tcs) s =
     (if tc_type tc \<noteq> ''function'' then tool_loop e tcs s
      else case json_parse e (fn_arguments tc) of
             Inl err \<Rightarrow> (Some err, s)
           | Inr args \<Rightarrow>
               (let s1 = s\<lparr>trace := trace s @ [CallTool (fn_name tc) args]\<rparr>
                in case callTool e (trace s) (fn_name tc) args of
                     Inl err \<Rightarrow> (Some err, s1)
                   | Inr r \<Rightarrow>
                       tool_loop e tcs (s1\<lparr>messages := messages s1 @ [tool_message e tc r]\<rparr>)))"

text \<open>\<^verbatim>\<open>completion.choices[0].message\<close>: reading \<^verbatim>\<open>message\<close> of an absent first choice
  raises a TypeError.\<close>

definition first_choice :: "message list \<Rightarrow> js_error + message" where
  "first_choice choices =
     (case choices of
        [] \<Rightarrow> Inl \<lparr>err_message = ''Cannot read properties of undefined (reading 'message')'',
                   err_response_data = None\<rparr>
      | m # _ \<Rightarrow> Inr m)"

text \<open>One awaited \<^verbatim>\<open>llmClient.chat.completions.create(body)\<close> followed by the read of the
  first choice: the message received, or the error raised.\<close>

definition completion_message :: "'j env \<Rightarrow> 'j event list \<Rightarrow> provider_client \<Rightarrow> 'j completion_body
    \<Rightarrow> js_error + message" where
  "completion_message e tr c b =
     (case create e tr c b of
        Inl err \<Rightarrow> Inl err
      | Inr choices \<Rightarrow> first_choice choices)"

definition complete :: "'j env \<Rightarrow> provider_client \<Rightarrow> 'j completion_body \<Rightarrow> 'j state
    \<Rightarrow> (js_error + message) \<times> 'j state" where
  "complete e c b s =
     (completion_message e (trace s) c b, s\<lparr>trace := trace s @ [Completion c b]\<rparr>)"

definition server_error :: "js_error \<Rightarrow> response" where
  "server_error err = \<lparr>status = 500, body = ErrorPayload (err_message err)\<rparr>"

definition bad_request :: "string \<Rightarrow> response" where
  "bad_request msg = \<lparr>status = 400, body = ErrorPayload msg\<rparr>"

definition ok :: "string option \<Rightarrow> string \<Rightarrow> string \<Rightarrow> response" where
  "ok answer selectedProvider selectedModel =
     \<lparr>status = 200, body = ChatPayload answer selectedProvider selectedModel\<rparr>"

text \<open>The two requests of a turn: the first carries the window and the tool specs, the
  one after the tool calls carries the messages only.\<close>

definition first_request :: "'j state \<Rightarrow> string \<Rightarrow> string \<Rightarrow> 'j completion_body" where
  "first_request s selectedModel p =
     \<lparr>cb_model = selectedModel,
      cb_messages = limit_history (messages s @ [user_message p]),
      cb_tools = Some (completion_tools (tools s))\<rparr>"

definition follow_up :: "string \<Rightarrow> message list \<Rightarrow> 'j completion_body" where
  "follow_up selectedModel ms = \<lparr>cb_model = selectedModel, cb_messages = ms, cb_tools = None\<rparr>"

text \<open>The handler from \<^verbatim>\<open>messages.push({role: "user", ...})\<close> on, once the provider is
  selected.\<close>

definition turn :: "'j env \<Rightarrow> provider_client \<Rightarrow> string \<Rightarrow> string \<Rightarrow> string \<Rightarrow> 'j state
    \<Rightarrow> response \<times> 'j state" where
  "turn e c selectedProvider selectedModel p s =
     (let s1 = s\<lparr>messages := limit_history (messages s @ [user_message p])\<rparr>
      in case complete e c (first_request s selectedModel p) s1 of
           (Inl err, s2) \<Rightarrow> (server_error err, s2)
         | (Inr msg, s2) \<Rightarrow>
             (let s3 = s2\<lparr>messages := messages s2 @ [msg]\<rparr>
              in case tool_calls msg of
                   None \<Rightarrow> (ok (content msg) selectedProvider selectedModel, s3)
                 | Some tcs \<Rightarrow>
                     (case tool_loop e tcs s3 of
                        (Some err, s4) \<Rightarrow> (server_error err, s4)
                      | (None, s4) \<Rightarrow>
                          (case complete e c (follow_up selectedModel (messages s4)) s4 of
                             (Inl err, s5) \<Rightarrow> (server_error err, s5)
                           | (Inr final, s5) \<Rightarrow>
                               (ok (content final) selectedProvider selectedModel,
                                s5\<lparr>messages := messages s5 @ [final]\<rparr>)))))"

text \<open>\<^verbatim>\<open>model || defaultModel\<close>: an absent or empty model gives the default.\<close>

definition select_model :: "string option \<Rightarrow> string \<Rightarrow> string" where
  "select_model m defaultModel =
     (case m of None \<Rightarrow> defaultModel | Some x \<Rightarrow> if x = [] then defaultModel else x)"

text \<open>\<^verbatim>\<open>const { prompt, provider = "groq", model } = req.body\<close>: an absent provider is
  \<^verbatim>\<open>"groq"\<close>.\<close>

definition requested_provider :: "request \<Rightarrow> string" where
  "requested_provider req = (case provider req of None \<Rightarrow> ''groq'' | Some x \<Rightarrow> x)"

text \<open>The selection of the provider: the result is the message of the 400 response, or the
  client with the provider and model names that the answer reports.\<close>

definition select_provider :: "'j state \<Rightarrow> request
    \<Rightarrow> string + (provider_client \<times> string \<times> string)" where
  "select_provider s req =
     (let selectedProvider = toLowerCase (requested_provider req)
      in if selectedProvider = ''openai'' then
           (if \<not> openai s then Inl ''OpenAI not configured (missing API key)''
            else Inr (OpenAI, selectedProvider, select_model (model req) ''gpt-4o-mini''))
         else if selectedProvider = ''groq'' then
           (if \<not> groq s then Inl ''Groq not configured (missing API key)''
            else Inr (Groq, selectedProvider, select_model (model req) ''llama-3.1-8b-instant''))
         else Inl (''Unsupported provider: '' @ requested_provider req))"

text \<open>The handler of \<^verbatim>\<open>POST /chat\<close>. A missing or empty prompt is refused first; the
  session is set up when \<open>client\<close> is still null.\<close>

definition chat :: "'j env \<Rightarrow> request \<Rightarrow> 'j state \<Rightarrow> response \<times> 'j state" where
  "chat e req s =
     (case prompt req of
        None \<Rightarrow> (bad_request ''Prompt is required'', s)
      | Some p \<Rightarrow>
          if p = [] then (bad_request ''Prompt is required'', s)
          else
            (case (if \<not> client s then initMcpClient e s else (None, s)) of
               (Some err, s0) \<Rightarrow> (server_error err, s0)
             | (None, s0) \<Rightarrow>
                 (case select_provider s0 req of
                    Inl msg \<Rightarrow> (bad_request msg, s0)
                  | Inr (c, selectedProvider, selectedModel) \<Rightarrow>
                      turn e c selectedProvider selectedModel p s0)))"

text \<open>\<^verbatim>\<open>app.listen\<close>: the callback sets the session up before a request is handled and only
  logs a failure.\<close>

definition listen :: "'j env \<Rightarrow> 'j state" where
  "listen e = snd (initMcpClient e initial_state)"

text \<open>A sequence of requests, handled one after the other.\<close>

fun run :: "'j env \<Rightarrow> 'j state \<Rightarrow> request list \<Rightarrow> 'j state" where
  "run e s [] = s"
| "run e s (r # rs) = run e (snd (chat e r s)) rs"

section \<open>The tools of the server (src/server.ts)\<close>

text \<open>
  Every registered tool has the shape of \<^verbatim>\<open>get-users\<close>: a \<^verbatim>\<open>try\<close> block that awaits the
  backend and builds the text of the answer, and a \<^verbatim>\<open>catch\<close> that answers with the
  diagnostic text and \<^verbatim>\<open>isError: true\<close>. The outcome of the awaited \<^verbatim>\<open>axios.get\<close> is the
  first argument; the rest of the block (filters, pagination, \<^verbatim>\<open>JSON.stringify\<close>) is the
  second, and may raise as any statement of the block may.
\<close>

definition error_text :: "string \<Rightarrow> js_error \<Rightarrow> string" where
  "error_text label err =
     label @ err_message err @ '' - '' @
       (case err_response_data err of None \<Rightarrow> [CHR 0x22, CHR 0x22] | Some d \<Rightarrow> d)"

definition text_result :: "string \<Rightarrow> bool \<Rightarrow> tool_result" where
  "text_result txt failed =
     \<lparr>result_content = [\<lparr>ci_type = ''text'', ci_text = txt\<rparr>], isError = failed\<rparr>"

definition get_users :: "js_error + 'u \<Rightarrow> ('u \<Rightarrow> js_error + string) \<Rightarrow> tool_result" where
  "get_users usersResponse payload =
     (case usersResponse of
        Inl err \<Rightarrow> text_result (error_text ''Error fetching users: '' err) True
      | Inr allUsers \<Rightarrow>
          (case payload allUsers of
             Inl err \<Rightarrow> text_result (error_text ''Error fetching users: '' err) True
           | Inr txt \<Rightarrow> text_result txt False))"

section \<open>Observations on histories and traces\<close>

definition is_completion :: "'j event \<Rightarrow> bool" where
  "is_completion ev = (case ev of Completion _ _ \<Rightarrow> True | _ \<Rightarrow> False)"

definition is_call :: "'j event \<Rightarrow> bool" where
  "is_call ev = (case ev of CallTool _ _ \<Rightarrow> True | _ \<Rightarrow> False)"

definition is_setup :: "'j event \<Rightarrow> bool" where
  "is_setup ev = (case ev of Connect \<Rightarrow> True | ListTools \<Rightarrow> True | _ \<Rightarrow> False)"

definition call_name :: "'j event \<Rightarrow> string" where
  "call_name ev = (case ev of CallTool n _ \<Rightarrow> n | _ \<Rightarrow> [])"

definition is_function :: "tool_call \<Rightarrow> bool" where
  "is_function tc = (tc_type tc = ''function'')"

text \<open>The state once the first completion of a turn has returned and \<open>ms\<close> has been pushed
  after the window.\<close>

definition answered :: "'j state \<Rightarrow> provider_client \<Rightarrow> string \<Rightarrow> string \<Rightarrow> message list \<Rightarrow> 'j state" where
  "answered s c selectedModel p ms =
     s\<lparr>trace := trace s @ [Completion c (first_request s selectedModel p)],
       messages := limit_history (messages s @ [user_message p]) @ ms\<rparr>"

text \<open>The ids that the assistant messages of a history request, and the histories in which
  every tool-role message answers one of them.\<close>

definition requested_ids :: "message list \<Rightarrow> string list" where
  "requested_ids ms =
     concat (map (\<lambda>m. case tool_calls m of None \<Rightarrow> [] | Some tcs \<Rightarrow> map tc_id tcs) ms)"

definition paired :: "message list \<Rightarrow> bool" where
  "paired ms =
     list_all (\<lambda>m. role m \<noteq> Tool \<or>
        (case tool_call_id m of None \<Rightarrow> False | Some i \<Rightarrow> i \<in> set (requested_ids ms))) ms"

text \<open>The provider answers with assistant messages.\<close>

definition assistant_only :: "'j env \<Rightarrow> bool" where
  "assistant_only e =
     (\<forall>tr c b m. completion_message e tr c b = Inr m \<longrightarrow> role m = Assistant)"

section \<open>Example sessions\<close>

definition plain_answer :: message where
  "plain_answer =
     \<lparr>role = Assistant, content = Some ''Hello.'', tool_calls = None, tool_call_id = None\<rparr>"

definition lookup_call :: tool_call where
  "lookup_call =
     \<lparr>tc_id = ''call_1'', tc_type = ''function'', fn_name = ''get-users'', fn_arguments = ''{}''\<rparr>"

definition custom_call :: tool_call where
  "custom_call =
     \<lparr>tc_id = ''call_2'', tc_type = ''custom'', fn_name = ''note'', fn_arguments = ''{}''\<rparr>"

definition asking :: "tool_call list \<Rightarrow> message" where
  "asking tcs = \<lparr>role = Assistant, content = None, tool_calls = Some tcs, tool_call_id = None\<rparr>"

definition users_tool :: "string tool_descriptor" where
  "users_tool =
     \<lparr>name = ''get-users'', description = Some ''Get the list of all users from the domo.'',
      inputSchema = ''{type: object}''\<rparr>"

definition two_users :: tool_result where
  "two_users = text_result ''{total: 2, count: 2}'' False"

definition unreachable :: js_error where
  "unreachable = \<lparr>err_message = ''Connection closed'', err_response_data = None\<rparr>"

text \<open>A session with a Groq key only: the first completion of the session answers \<open>first\<close>,
  every later one \<open>plain_answer\<close>; the tool endpoint answers \<open>tool\<close>.\<close>

definition scripted :: "message \<Rightarrow> js_error + tool_result \<Rightarrow> string env" where
  "scripted first tool =
     \<lparr>openai_api_key = False, groq_api_key = True,
      connect = (\<lambda>tr. None),
      listTools = (\<lambda>tr. Inr [users_tool]),
      create = (\<lambda>tr c b. if filter is_completion tr = [] then Inr [first] else Inr [plain_answer]),
      callTool = (\<lambda>tr n a. tool),
      json_parse = (\<lambda>a. Inr a),
      json_stringify = (\<lambda>cs. concat (map ci_text cs))\<rparr>"

definition hi :: request where
  "hi = \<lparr>prompt = Some ''hi'', provider = None, model = None\<rparr>"

text \<open>A history that starts with the system prompt and has no other system message.\<close>

definition rooted :: "message list \<Rightarrow> bool" where
  "rooted ms = (ms \<noteq> [] \<and> hd ms = system_message \<and> list_all (\<lambda>m. role m \<noteq> System) (tl ms))"

definition quiet_session :: "string env" where
  "quiet_session = scripted plain_answer (Inr two_users)"

definition tool_session :: "string env" where
  "tool_session = scripted (asking [lookup_call]) (Inr two_users)"

text \<open>What follows the first assistant message of \<open>tool_session\<close> when the fifth prompt
  arrives.\<close>

definition later :: "message list" where
  "later =
     [tool_message tool_session lookup_call two_users, plain_answer,
      user_message ''hi'', plain_answer, user_message ''hi'', plain_answer,
      user_message ''hi'', plain_answer, user_message ''hi'']"

text \<open>The state of a turn once the tool loop has pushed \<open>tms\<close> and issued \<open>evs\<close> after the
  assistant message \<open>m\<close>.\<close>

definition called :: "'j state \<Rightarrow> provider_client \<Rightarrow> string \<Rightarrow> string \<Rightarrow> message
    \<Rightarrow> message list \<Rightarrow> 'j event list \<Rightarrow> 'j state" where
  "called s c selectedModel p m tms evs =
     s\<lparr>trace := trace s @ Completion c (first_request s selectedModel p) # evs,
       messages := limit_history (messages s @ [user_message p]) @ m # tms\<rparr>"


definition broken_session :: "string env" where
  "broken_session = scripted (asking [lookup_call]) (Inl unreachable)"

text \<open>
  What the tool loop has done for the calls \<open>fs\<close> when it has pushed \<open>tms\<close> and issued
  \<open>evs\<close> after the events \<open>tr\<close>: the k-th call's arguments decoded, the k-th event is its
  invocation, the endpoint answered it (after the events before it), and the k-th message
  is the tool-role message with the id of the call and the serialised content of that
  answer.
\<close>

definition answers :: "'j env \<Rightarrow> 'j event list \<Rightarrow> tool_call list \<Rightarrow> message list
    \<Rightarrow> 'j event list \<Rightarrow> bool" where
  "answers e tr fs tms evs =
     (\<forall>k < length tms. \<exists>a res.
        json_parse e (fn_arguments (fs ! k)) = Inr a
      \<and> evs ! k = CallTool (fn_name (fs ! k)) a
      \<and> callTool e (tr @ take k evs) (fn_name (fs ! k)) a = Inr res
      \<and> tms ! k = \<lparr>role = Tool, content = Some (json_stringify e (result_content res)),
                    tool_calls = None, tool_call_id = Some (tc_id (fs ! k))\<rparr>)"

text \<open>The call \<open>tc\<close> raises \<open>err\<close> after the events \<open>tr\<close>, having issued \<open>extra\<close>: its arguments
  do not decode (nothing is issued), or its invocation is issued and rejected.\<close>

definition raises :: "'j env \<Rightarrow> 'j event list \<Rightarrow> tool_call \<Rightarrow> 'j event list \<Rightarrow> js_error \<Rightarrow> bool" where
  "raises e tr tc extra err =
     ((json_parse e (fn_arguments tc) = Inl err \<and> extra = [])
      \<or> (\<exists>a. json_parse e (fn_arguments tc) = Inr a
            \<and> extra = [CallTool (fn_name tc) a]
            \<and> callTool e tr (fn_name tc) a = Inl err))"

definition ask :: "string \<Rightarrow> request" where
  "ask p = \<lparr>prompt = Some p, provider = None, model = None\<rparr>"

definition second_call :: tool_call where
  "second_call =
     \<lparr>tc_id = ''call_3'', tc_type = ''function'', fn_name = ''search-dataflows'',
      fn_arguments = ''{query}''\<rparr>"

text \<open>A session with a Groq key only: the first completion of the session answers \<open>first\<close>,
  every later one \<open>next\<close>; the tool endpoint answers by the name of the tool.\<close>

definition session :: "message \<Rightarrow> message \<Rightarrow> (string \<Rightarrow> js_error + tool_result) \<Rightarrow> string env" where
  "session first next tool =
     \<lparr>openai_api_key = False, groq_api_key = True,
      connect = (\<lambda>tr. None),
      listTools = (\<lambda>tr. Inr [users_tool]),
      create = (\<lambda>tr c b. if filter is_completion tr = [] then Inr [first] else Inr [next]),
      callTool = (\<lambda>tr n a. tool n),
      json_parse = (\<lambda>a. Inr a),
      json_stringify = (\<lambda>cs. concat (map ci_text cs))\<rparr>"

text \<open>The answer of the follow-up completion asks for a tool again and has no content.\<close>

definition insistent_session :: "string env" where
  "insistent_session =
     session (asking [lookup_call]) (asking [second_call]) (\<lambda>n. Inr two_users)"



text \<open>A call of another type before a call of type \<^verbatim>\<open>function\<close>.\<close>

definition skipping_session :: "string env" where
  "skipping_session =
     session (asking [custom_call, lookup_call]) plain_answer (\<lambda>n. Inr two_users)"

text \<open>A call of another type, then two calls of type \<^verbatim>\<open>function\<close> of which the second is
  rejected.\<close>

definition trio_session :: "string env" where
  "trio_session =
     session (asking [custom_call, lookup_call, second_call]) plain_answer
       (\<lambda>n. if n = ''get-users'' then Inr two_users else Inl unreachable)"

text \<open>Two calls: \<^verbatim>\<open>get-users\<close> answers with what it returns when its backend call has
  failed, the other tool answers normally.\<close>

definition relay_session :: "string env" where
  "relay_session =
     session (asking [lookup_call, second_call]) plain_answer
       (\<lambda>n. if n = ''get-users''
            then Inr (get_users (Inl unreachable :: js_error + string) (\<lambda>u. Inr u))
            else Inr two_users)"

section \<open>Basic facts\<close>

lemma is_call_simps [simp]:
  "is_call (CallTool n a)" "\<not> is_call (Completion c b)" "\<not> is_call Connect" "\<not> is_call ListTools"
  by (simp_all add: is_call_def)

lemma is_completion_simps [simp]:
  "\<not> is_completion (CallTool n a)" "is_completion (Completion c b)"
  "\<not> is_completion Connect" "\<not> is_completion ListTools"
  by (simp_all add: is_completion_def)

lemma is_setup_simps [simp]:
  "\<not> is_setup (CallTool n a)" "\<not> is_setup (Completion c b)" "is_setup Connect" "is_setup ListTools"
  by (simp_all add: is_setup_def)

lemma call_name_simp [simp]: "call_name (CallTool n a) = n"
  by (simp add: call_name_def)

lemma is_call_not_completion: "is_call ev \<Longrightarrow> \<not> is_completion ev"
  by (cases ev) simp_all

lemma is_setup_not_completion: "is_setup ev \<Longrightarrow> \<not> is_completion ev"
  by (cases ev) simp_all

lemma filter_completion_calls: "list_all is_call evs \<Longrightarrow> filter is_completion evs = []"
  by (induction evs) (auto dest: is_call_not_completion)

lemma filter_completion_setup: "list_all is_setup evs \<Longrightarrow> filter is_completion evs = []"
  by (induction evs) (auto dest: is_setup_not_completion)

lemma limit_history_long:
  "10 < length ms \<Longrightarrow> limit_history ms = hd ms # drop (length ms - 9) ms"
  by (cases ms) (auto simp: limit_history_def)

lemma length_limit_history: "length (limit_history ms) = min (length ms) 10"
  by (simp add: limit_history_def)

lemma hd_limit_history: "hd (limit_history ms) = hd ms"
  by (cases ms) (simp_all add: limit_history_def)

lemma limit_history_Nil: "limit_history ms = [] \<longleftrightarrow> ms = []"
  by (auto simp: limit_history_def)

section \<open>The tool loop\<close>

lemma tool_loop_effect:
  "tool_loop e tcs s = (r, s') \<Longrightarrow>
     \<exists>tms evs. s' = s\<lparr>trace := trace s @ evs, messages := messages s @ tms\<rparr>
       \<and> map tool_call_id tms = map (\<lambda>tc. Some (tc_id tc)) (take (length tms) (filter is_function tcs))
       \<and> map call_name evs = map fn_name (take (length evs) (filter is_function tcs))
       \<and> list_all (\<lambda>t. role t = Tool) tms
       \<and> list_all is_call evs
       \<and> length tms \<le> length evs
       \<and> (r = None \<longrightarrow> length tms = length (filter is_function tcs) \<and> length evs = length tms)"
proof (induction tcs arbitrary: s)
  case Nil
  then have "s' = s" "r = None" by auto
  then show ?case
    by (intro exI[of _ "[]"]) simp
next
  case (Cons tc tcs)
  show ?case
  proof (cases "tc_type tc = ''function''")
    case False
    with Cons.prems have "tool_loop e tcs s = (r, s')" by simp
    moreover from False have "\<not> is_function tc" by (simp add: is_function_def)
    ultimately show ?thesis using Cons.IH[of s] by simp
  next
    case fn: True
    then have g: "is_function tc" by (simp add: is_function_def)
    show ?thesis
    proof (cases "json_parse e (fn_arguments tc)")
      case (Inl err)
      with fn Cons.prems have "s' = s" "r = Some err" by auto
      then show ?thesis
        by (intro exI[of _ "[]"]) simp
    next
      case (Inr args)
      let ?s1 = "s\<lparr>trace := trace s @ [CallTool (fn_name tc) args]\<rparr>"
      show ?thesis
      proof (cases "callTool e (trace s) (fn_name tc) args")
        case (Inl err)
        with fn Inr Cons.prems have "s' = ?s1" "r = Some err" by (auto simp: Let_def)
        then show ?thesis using g
          apply -
          apply (rule exI[of _ "[]"])
          apply (rule exI[of _ "[CallTool (fn_name tc) args]"])
          apply simp
          done
      next
        case res: (Inr res)
        let ?s2 = "?s1\<lparr>messages := messages ?s1 @ [tool_message e tc res]\<rparr>"
        from fn Inr res Cons.prems have "tool_loop e tcs ?s2 = (r, s')" by (simp add: Let_def)
        from Cons.IH[OF this] obtain tms evs where
          a: "s' = ?s2\<lparr>trace := trace ?s2 @ evs, messages := messages ?s2 @ tms\<rparr>"
          and b: "map tool_call_id tms = map (\<lambda>tc. Some (tc_id tc)) (take (length tms) (filter is_function tcs))"
          and b': "map call_name evs = map fn_name (take (length evs) (filter is_function tcs))"
          and c: "list_all (\<lambda>t. role t = Tool) tms" and d: "list_all is_call evs"
          and le: "length tms \<le> length evs"
          and f: "r = None \<longrightarrow> length tms = length (filter is_function tcs) \<and> length evs = length tms"
          by blast
        show ?thesis
          using a b b' c d le f g
          apply -
          apply (rule exI[of _ "tool_message e tc res # tms"])
          apply (rule exI[of _ "CallTool (fn_name tc) args # evs"])
          apply (simp add: tool_message_def)
          done
      qed
    qed
  qed
qed

section \<open>The turn, case by case\<close>

lemma turn_cases:
  assumes "turn e c sp sm p s = (resp, s')"
  shows "(\<exists>err. completion_message e (trace s) c (first_request s sm p) = Inl err
            \<and> resp = server_error err \<and> s' = answered s c sm p [])
       \<or> (\<exists>m. completion_message e (trace s) c (first_request s sm p) = Inr m
            \<and> tool_calls m = None \<and> resp = ok (content m) sp sm \<and> s' = answered s c sm p [m])
       \<or> (\<exists>m tcs err. completion_message e (trace s) c (first_request s sm p) = Inr m
            \<and> tool_calls m = Some tcs
            \<and> tool_loop e tcs (answered s c sm p [m]) = (Some err, s')
            \<and> resp = server_error err)
       \<or> (\<exists>m tcs s4 err. completion_message e (trace s) c (first_request s sm p) = Inr m
            \<and> tool_calls m = Some tcs
            \<and> tool_loop e tcs (answered s c sm p [m]) = (None, s4)
            \<and> completion_message e (trace s4) c (follow_up sm (messages s4)) = Inl err
            \<and> resp = server_error err
            \<and> s' = s4\<lparr>trace := trace s4 @ [Completion c (follow_up sm (messages s4))]\<rparr>)
       \<or> (\<exists>m tcs s4 final. completion_message e (trace s) c (first_request s sm p) = Inr m
            \<and> tool_calls m = Some tcs
            \<and> tool_loop e tcs (answered s c sm p [m]) = (None, s4)
            \<and> completion_message e (trace s4) c (follow_up sm (messages s4)) = Inr final
            \<and> resp = ok (content final) sp sm
            \<and> s' = s4\<lparr>trace := trace s4 @ [Completion c (follow_up sm (messages s4))],
                       messages := messages s4 @ [final]\<rparr>)"
proof -
  let ?r = "completion_message e (trace s) c (first_request s sm p)"
  show ?thesis
  proof (cases ?r)
    case (Inl err)
    with assms have "resp = server_error err \<and> s' = answered s c sm p []"
      by (auto simp: turn_def complete_def answered_def Let_def)
    with Inl show ?thesis by blast
  next
    case (Inr m)
    let ?s3 = "answered s c sm p [m]"
    show ?thesis
    proof (cases "tool_calls m")
      case None
      with assms Inr have "resp = ok (content m) sp sm \<and> s' = ?s3"
        by (auto simp: turn_def complete_def answered_def Let_def)
      with Inr None show ?thesis by blast
    next
      case (Some tcs)
      obtain r s4 where loop: "tool_loop e tcs ?s3 = (r, s4)" by (cases "tool_loop e tcs ?s3")
      show ?thesis
      proof (cases r)
        case (Some err)
        with assms Inr \<open>tool_calls m = Some tcs\<close> loop
        have "resp = server_error err \<and> s' = s4"
          by (auto simp: turn_def complete_def answered_def Let_def)
        with Inr \<open>tool_calls m = Some tcs\<close> loop Some show ?thesis by blast
      next
        case None
        let ?f = "completion_message e (trace s4) c (follow_up sm (messages s4))"
        show ?thesis
        proof (cases ?f)
          case (Inl err)
          with assms Inr \<open>tool_calls m = Some tcs\<close> loop None
          have "resp = server_error err
              \<and> s' = s4\<lparr>trace := trace s4 @ [Completion c (follow_up sm (messages s4))]\<rparr>"
            by (auto simp: turn_def complete_def answered_def Let_def)
          with \<open>?r = Inr m\<close> \<open>tool_calls m = Some tcs\<close> loop None Inl show ?thesis by blast
        next
          case final: (Inr final)
          with assms Inr \<open>tool_calls m = Some tcs\<close> loop None
          have "resp = ok (content final) sp sm
              \<and> s' = s4\<lparr>trace := trace s4 @ [Completion c (follow_up sm (messages s4))],
                         messages := messages s4 @ [final]\<rparr>"
            by (auto simp: turn_def complete_def answered_def Let_def)
          with \<open>?r = Inr m\<close> \<open>tool_calls m = Some tcs\<close> loop None final show ?thesis by blast
        qed
      qed
    qed
  qed
qed

section \<open>The request, case by case\<close>

lemma initMcpClient_effect:
  assumes "initMcpClient e s = (r, s0)"
  shows "\<exists>evs ts. s0 = s\<lparr>openai := openai s \<or> openai_api_key e, groq := groq s \<or> groq_api_key e,
                          client := True, trace := trace s @ evs, tools := ts\<rparr>
           \<and> list_all is_setup evs"
proof (cases "connect e (trace s)")
  case (Some err)
  with assms have "s0 = s\<lparr>openai := openai s \<or> openai_api_key e, groq := groq s \<or> groq_api_key e,
                          client := True, trace := trace s @ [Connect], tools := tools s\<rparr>"
    by (auto simp: initMcpClient_def Let_def)
  then show ?thesis
    apply -
    apply (rule exI[of _ "[Connect]"])
    apply (rule exI[of _ "tools s"])
    apply simp
    done
next
  case None
  show ?thesis
  proof (cases "listTools e (trace s @ [Connect])")
    case (Inl err)
    with None assms have "s0 = s\<lparr>openai := openai s \<or> openai_api_key e, groq := groq s \<or> groq_api_key e,
                          client := True, trace := trace s @ [Connect, ListTools], tools := tools s\<rparr>"
      by (auto simp: initMcpClient_def Let_def)
    then show ?thesis
      apply -
      apply (rule exI[of _ "[Connect, ListTools]"])
      apply (rule exI[of _ "tools s"])
      apply simp
      done
  next
    case (Inr ts)
    with None assms have "s0 = s\<lparr>openai := openai s \<or> openai_api_key e, groq := groq s \<or> groq_api_key e,
                          client := True, trace := trace s @ [Connect, ListTools], tools := ts\<rparr>"
      by (auto simp: initMcpClient_def Let_def)
    then show ?thesis
      apply -
      apply (rule exI[of _ "[Connect, ListTools]"])
      apply (rule exI[of _ ts])
      apply simp
      done
  qed
qed

lemma chat_turn:
  assumes "client s" "prompt req = Some p" "p \<noteq> []" "select_provider s req = Inr (c, sp, sm)"
  shows "chat e req s = turn e c sp sm p s"
  using assms by (simp add: chat_def)

lemma chat_ready:
  assumes "client s" "prompt req = Some p" "p \<noteq> []"
  shows "chat e req s =
     (case select_provider s req of
        Inl msg \<Rightarrow> (bad_request msg, s)
      | Inr (c, sp, sm) \<Rightarrow> turn e c sp sm p s)"
  using assms by (simp add: chat_def)

lemma chat_init:
  assumes "\<not> client s" "prompt req = Some p" "p \<noteq> []" "initMcpClient e s = (r, s0)"
  shows "chat e req s =
     (case r of
        Some err \<Rightarrow> (server_error err, s0)
      | None \<Rightarrow>
          (case select_provider s0 req of
             Inl msg \<Rightarrow> (bad_request msg, s0)
           | Inr (c, sp, sm) \<Rightarrow> turn e c sp sm p s0))"
  using assms by (simp add: chat_def)

lemma chat_cases:
  assumes "chat e req s = (resp, s')"
  shows "(\<exists>msg. resp = bad_request msg \<and> s' = s)
       \<or> (\<exists>evs s0. \<not> client s \<and> messages s0 = messages s \<and> trace s0 = trace s @ evs
             \<and> list_all is_setup evs \<and> client s0
             \<and> ((\<exists>err. resp = server_error err \<and> s' = s0)
                \<or> (\<exists>msg. resp = bad_request msg \<and> s' = s0)
                \<or> (\<exists>p c sp sm. prompt req = Some p \<and> p \<noteq> [] \<and> turn e c sp sm p s0 = (resp, s'))))
       \<or> (\<exists>p c sp sm. client s \<and> prompt req = Some p \<and> p \<noteq> []
             \<and> select_provider s req = Inr (c, sp, sm) \<and> turn e c sp sm p s = (resp, s'))"
    (is "?A \<or> ?B \<or> ?C")
proof (cases "prompt req")
  case None
  with assms have "resp = bad_request ''Prompt is required'' \<and> s' = s" by (simp add: chat_def)
  then have ?A by (rule exI)
  then show ?thesis by (rule disjI1)
next
  case (Some p)
  show ?thesis
  proof (cases "p = []")
    case True
    with Some assms have "resp = bad_request ''Prompt is required'' \<and> s' = s" by (simp add: chat_def)
    then have ?A by (rule exI)
    then show ?thesis by (rule disjI1)
  next
    case False
    show ?thesis
    proof (cases "client s")
      case True
      show ?thesis
      proof (cases "select_provider s req")
        case (Inl msg)
        with chat_ready[OF True Some False, of e] assms
        have "resp = bad_request msg \<and> s' = s" by simp
        then have ?A by (rule exI)
        then show ?thesis by (rule disjI1)
      next
        case (Inr x)
        obtain c sp sm where x: "x = (c, sp, sm)" by (cases x)
        with Inr chat_turn[OF True Some False, of c sp sm e] assms
        have "turn e c sp sm p s = (resp, s')" by simp
        with True Some False Inr x have ?C by blast
        then show ?thesis by simp
      qed
    next
      case nc: False
      obtain r s0 where init: "initMcpClient e s = (r, s0)" by (cases "initMcpClient e s")
      from initMcpClient_effect[OF init] obtain evs ts where
        eq: "s0 = s\<lparr>openai := openai s \<or> openai_api_key e, groq := groq s \<or> groq_api_key e,
                          client := True, trace := trace s @ evs, tools := ts\<rparr>"
        and evs: "list_all is_setup evs"
        by blast
      from eq have s0: "messages s0 = messages s" "trace s0 = trace s @ evs" "client s0" by simp_all
      have "(\<exists>err. resp = server_error err \<and> s' = s0)
                \<or> (\<exists>msg. resp = bad_request msg \<and> s' = s0)
                \<or> (\<exists>p c sp sm. prompt req = Some p \<and> p \<noteq> [] \<and> turn e c sp sm p s0 = (resp, s'))"
        (is "?X \<or> ?Y \<or> ?Z")
      proof (cases r)
        case (Some err)
        with chat_init[OF nc \<open>prompt req = Some p\<close> False init] assms
        have "resp = server_error err \<and> s' = s0" by simp
        then have ?X by (rule exI)
        then show ?thesis by (rule disjI1)
      next
        case None
        show ?thesis
        proof (cases "select_provider s0 req")
          case (Inl msg)
          with None chat_init[OF nc \<open>prompt req = Some p\<close> False init] assms
          have "resp = bad_request msg \<and> s' = s0" by simp
          then have ?Y by (rule exI)
          then show ?thesis by simp
        next
          case (Inr x)
          obtain c sp sm where "x = (c, sp, sm)" by (cases x)
          with Inr None chat_init[OF nc \<open>prompt req = Some p\<close> False init] assms
          have "turn e c sp sm p s0 = (resp, s')" by simp
          with \<open>prompt req = Some p\<close> False have ?Z by blast
          then show ?thesis by simp
        qed
      qed
      with nc s0 evs have ?B
        apply -
        apply (rule exI[of _ evs])
        apply (rule exI[of _ s0])
        apply simp
        done
      then show ?thesis by simp
    qed
  qed
qed

lemma drop_length_append: "drop (length xs + n) (xs @ ys) = drop n ys"
  by (induction xs) simp_all

section \<open>History invariants\<close>

lemma rooted_limit_history:
  assumes "rooted ms" "role u \<noteq> System"
  shows "rooted (limit_history (ms @ [u]))"
proof -
  from assms(1) obtain rest where ms: "ms = system_message # rest"
    and rest: "list_all (\<lambda>m. role m \<noteq> System) rest"
    by (cases ms) (auto simp: rooted_def)
  show ?thesis
  proof (cases "10 < length (ms @ [u])")
    case False
    then have "limit_history (ms @ [u]) = ms @ [u]" by (simp add: limit_history_def)
    with ms rest assms(2) show ?thesis by (simp add: rooted_def)
  next
    case True
    then have eq: "limit_history (ms @ [u]) = system_message # drop (length (ms @ [u]) - 9) (ms @ [u])"
      using ms by (simp add: limit_history_long)
    have "set (drop (length (ms @ [u]) - 9) (ms @ [u])) \<subseteq> set (rest @ [u])"
    proof -
      from True have "length (ms @ [u]) - 9 = Suc (length (ms @ [u]) - 10)" by simp
      moreover have "ms @ [u] = system_message # (rest @ [u])" using ms by simp
      ultimately have "drop (length (ms @ [u]) - 9) (ms @ [u])
          = drop (Suc (length (ms @ [u]) - 10)) (system_message # (rest @ [u]))"
        by (simp only:)
      also have "\<dots> = drop (length (ms @ [u]) - 10) (rest @ [u])" by (rule drop_Suc_Cons)
      finally have "set (drop (length (ms @ [u]) - 9) (ms @ [u]))
          = set (drop (length (ms @ [u]) - 10) (rest @ [u]))" by (rule arg_cong)
      also have "\<dots> \<subseteq> set (rest @ [u])" by (rule set_drop_subset)
      finally show ?thesis .
    qed
    moreover have "\<forall>m \<in> set (rest @ [u]). role m \<noteq> System"
      using rest assms(2) by (auto simp: list_all_iff)
    ultimately have "list_all (\<lambda>m. role m \<noteq> System) (drop (length (ms @ [u]) - 9) (ms @ [u]))"
      by (auto simp: list_all_iff)
    with eq show ?thesis by (simp add: rooted_def)
  qed
qed

lemma rooted_append:
  "rooted ms \<Longrightarrow> list_all (\<lambda>m. role m \<noteq> System) ext \<Longrightarrow> rooted (ms @ ext)"
  by (cases ms) (auto simp: rooted_def)

lemma rooted_filter: "rooted ms \<Longrightarrow> filter (\<lambda>m. role m = System) ms = [system_message]"
proof -
  assume r: "rooted ms"
  then obtain rest where ms: "ms = system_message # rest"
    and rest: "list_all (\<lambda>m. role m \<noteq> System) rest"
    by (cases ms) (auto simp: rooted_def)
  from rest have "filter (\<lambda>m. role m = System) rest = []"
    by (induction rest) auto
  with ms show ?thesis by (simp add: system_message_def)
qed

lemma turn_messages:
  assumes "turn e c sp sm p s = (resp, s')"
  shows "\<exists>ext. messages s' = limit_history (messages s @ [user_message p]) @ ext
           \<and> list_all (\<lambda>m. role m = Tool \<or> (\<exists>tr b. completion_message e tr c b = Inr m)) ext
           \<and> client s' = client s \<and> openai s' = openai s \<and> groq s' = groq s
           \<and> tools s' = tools s"
proof -
  let ?w = "limit_history (messages s @ [user_message p])"
  let ?P = "\<lambda>m. role m = Tool \<or> (\<exists>tr b. completion_message e tr c b = Inr m)"
  have loop: "\<exists>ext. messages s4 = ?w @ ext \<and> list_all ?P ext
           \<and> client s4 = client s \<and> openai s4 = openai s \<and> groq s4 = groq s \<and> tools s4 = tools s"
    if m: "completion_message e (trace s) c (first_request s sm p) = Inr m"
      and l: "tool_loop e tcs (answered s c sm p [m]) = (r, s4)" for m tcs r s4
  proof -
    from tool_loop_effect[OF l] obtain tms evs where
      s4: "s4 = (answered s c sm p [m])\<lparr>trace := trace (answered s c sm p [m]) @ evs,
                 messages := messages (answered s c sm p [m]) @ tms\<rparr>"
      and tms: "list_all (\<lambda>t. role t = Tool) tms"
      by blast
    from s4 have "messages s4 = ?w @ (m # tms)" by (simp add: answered_def)
    moreover from m tms have "list_all ?P (m # tms)" by (auto simp: list_all_iff)
    moreover from s4 have "client s4 = client s \<and> openai s4 = openai s \<and> groq s4 = groq s \<and> tools s4 = tools s"
      by (simp add: answered_def)
    ultimately show ?thesis by blast
  qed
  from turn_cases[OF assms] consider
    (a) "s' = answered s c sm p []"
    | (b) m where "completion_message e (trace s) c (first_request s sm p) = Inr m"
        "s' = answered s c sm p [m]"
    | (c) m tcs r where "completion_message e (trace s) c (first_request s sm p) = Inr m"
        "tool_loop e tcs (answered s c sm p [m]) = (r, s')"
    | (d) m tcs s4 where "completion_message e (trace s) c (first_request s sm p) = Inr m"
        "tool_loop e tcs (answered s c sm p [m]) = (None, s4)"
        "s' = s4\<lparr>trace := trace s4 @ [Completion c (follow_up sm (messages s4))]\<rparr>"
    | (f) m tcs s4 final where "completion_message e (trace s) c (first_request s sm p) = Inr m"
        "tool_loop e tcs (answered s c sm p [m]) = (None, s4)"
        "completion_message e (trace s4) c (follow_up sm (messages s4)) = Inr final"
        "s' = s4\<lparr>trace := trace s4 @ [Completion c (follow_up sm (messages s4))],
                       messages := messages s4 @ [final]\<rparr>"
    by blast
  then show ?thesis
  proof cases
    case a
    then show ?thesis by (intro exI[of _ "[]"]) (simp add: answered_def)
  next
    case b
    then show ?thesis by (intro exI[of _ "[m]"]) (auto simp: answered_def)
  next
    case c
    from loop[OF c(1) c(2)] show ?thesis .
  next
    case d
    from loop[OF d(1) d(2)] d(3) show ?thesis by simp
  next
    case f
    from loop[OF f(1) f(2)] obtain ext where
      e: "messages s4 = ?w @ ext" "list_all ?P ext"
      "client s4 = client s \<and> openai s4 = openai s \<and> groq s4 = groq s \<and> tools s4 = tools s"
      by blast
    from f(3) have "?P final" by blast
    with e f(4) show ?thesis by (intro exI[of _ "ext @ [final]"]) simp
  qed
qed


section \<open>Requests and sessions\<close>

lemma limit_history_push:
  assumes "ms \<noteq> []"
  shows "limit_history (ms @ [u]) =
     (if 10 \<le> length ms then hd ms # drop (length ms - 8) ms @ [u] else ms @ [u])"
proof (cases "10 \<le> length ms")
  case False
  then show ?thesis by (simp add: limit_history_def)
next
  case True
  then have "length (ms @ [u]) - 9 = length ms - 8" by simp
  moreover have "drop (length ms - 8) (ms @ [u]) = drop (length ms - 8) ms @ [u]" by simp
  moreover from assms have "hd (ms @ [u]) = hd ms" by simp
  ultimately show ?thesis using True by (simp add: limit_history_long)
qed

lemma chat_messages:
  assumes "chat e req s = (resp, s')"
  shows "messages s' = messages s
       \<or> (\<exists>p c ext. prompt req = Some p \<and> p \<noteq> []
             \<and> messages s' = limit_history (messages s @ [user_message p]) @ ext
             \<and> list_all (\<lambda>m. role m = Tool \<or> (\<exists>tr b. completion_message e tr c b = Inr m)) ext)"
    (is "?same \<or> ?grown")
proof -
  from chat_cases[OF assms] consider
    (a) "s' = s"
    | (b) s0 where "messages s0 = messages s" "s' = s0"
    | (c) s0 p c sp sm where "messages s0 = messages s" "prompt req = Some p" "p \<noteq> []"
        "turn e c sp sm p s0 = (resp, s')"
    | (d) p c sp sm where "prompt req = Some p" "p \<noteq> []" "turn e c sp sm p s = (resp, s')"
    by blast
  then show ?thesis
  proof cases
    case a
    then show ?thesis by simp
  next
    case b
    then show ?thesis by simp
  next
    case c
    from turn_messages[OF c(4)] c(1) c(2) c(3) have ?grown by auto
    then show ?thesis ..
  next
    case d
    from turn_messages[OF d(3)] d(1) d(2) have ?grown by auto
    then show ?thesis ..
  qed
qed

lemma chat_hd:
  assumes "messages s \<noteq> []" "chat e req s = (resp, s')"
  shows "messages s' \<noteq> [] \<and> hd (messages s') = hd (messages s)"
proof -
  from chat_messages[OF assms(2)] show ?thesis
  proof
    assume "messages s' = messages s"
    with assms(1) show ?thesis by simp
  next
    assume "\<exists>p c ext. prompt req = Some p \<and> p \<noteq> []
             \<and> messages s' = limit_history (messages s @ [user_message p]) @ ext
             \<and> list_all (\<lambda>m. role m = Tool \<or> (\<exists>tr b. completion_message e tr c b = Inr m)) ext"
    then obtain p ext where eq: "messages s' = limit_history (messages s @ [user_message p]) @ ext"
      by blast
    have ne: "limit_history (messages s @ [user_message p]) \<noteq> []"
      by (simp add: limit_history_Nil)
    with eq have "hd (messages s') = hd (limit_history (messages s @ [user_message p]))" by simp
    also have "\<dots> = hd (messages s @ [user_message p])" by (rule hd_limit_history)
    also from assms(1) have "\<dots> = hd (messages s)" by simp
    finally show ?thesis using eq ne by simp
  qed
qed

lemma chat_rooted:
  assumes "assistant_only e" "rooted (messages s)" "chat e req s = (resp, s')"
  shows "rooted (messages s')"
proof -
  from chat_messages[OF assms(3)] show ?thesis
  proof
    assume "messages s' = messages s"
    with assms(2) show ?thesis by simp
  next
    assume "\<exists>p c ext. prompt req = Some p \<and> p \<noteq> []
             \<and> messages s' = limit_history (messages s @ [user_message p]) @ ext
             \<and> list_all (\<lambda>m. role m = Tool \<or> (\<exists>tr b. completion_message e tr c b = Inr m)) ext"
    then obtain p c ext where eq: "messages s' = limit_history (messages s @ [user_message p]) @ ext"
      and ext: "list_all (\<lambda>m. role m = Tool \<or> (\<exists>tr b. completion_message e tr c b = Inr m)) ext"
      by blast
    from ext assms(1) have "list_all (\<lambda>m. role m \<noteq> System) ext"
      by (auto simp: list_all_iff assistant_only_def)
    moreover have "rooted (limit_history (messages s @ [user_message p]))"
      using assms(2) by (rule rooted_limit_history) (simp add: user_message_def)
    ultimately show ?thesis using eq by (simp add: rooted_append)
  qed
qed

lemma chat_client:
  assumes "client s" "chat e req s = (resp, s')"
  shows "client s' \<and> openai s' = openai s \<and> groq s' = groq s"
proof -
  from chat_cases[OF assms(2)] assms(1) consider
    (a) "s' = s"
    | (d) p c sp sm where "turn e c sp sm p s = (resp, s')"
    by blast
  then show ?thesis
  proof cases
    case a
    with assms(1) show ?thesis by simp
  next
    case d
    from turn_messages[OF d] assms(1) show ?thesis by auto
  qed
qed

lemma run_hd:
  "messages s \<noteq> [] \<Longrightarrow>
     messages (run e s reqs) \<noteq> [] \<and> hd (messages (run e s reqs)) = hd (messages s)"
proof (induction reqs arbitrary: s)
  case Nil
  then show ?case by simp
next
  case (Cons r rs)
  obtain resp s1 where c: "chat e r s = (resp, s1)" by (cases "chat e r s")
  from chat_hd[OF Cons.prems c] Cons.IH[of s1] c show ?case by simp
qed

lemma run_rooted:
  "assistant_only e \<Longrightarrow> rooted (messages s) \<Longrightarrow> rooted (messages (run e s reqs))"
proof (induction reqs arbitrary: s)
  case Nil
  then show ?case by simp
next
  case (Cons r rs)
  obtain resp s1 where c: "chat e r s = (resp, s1)" by (cases "chat e r s")
  from chat_rooted[OF Cons.prems c] Cons.IH[of s1] Cons.prems(1) c show ?case by simp
qed

lemma run_client:
  "client s \<Longrightarrow>
     client (run e s reqs) \<and> openai (run e s reqs) = openai s \<and> groq (run e s reqs) = groq s"
proof (induction reqs arbitrary: s)
  case Nil
  then show ?case by simp
next
  case (Cons r rs)
  obtain resp s1 where c: "chat e r s = (resp, s1)" by (cases "chat e r s")
  from chat_client[OF Cons.prems c] Cons.IH[of s1] c show ?case by simp
qed

lemma listen_state:
  fixes e :: "'j env"
  shows "client (listen e) \<and> openai (listen e) = openai_api_key e \<and> groq (listen e) = groq_api_key e
   \<and> messages (listen e) = [system_message]"
proof -
  obtain r s0 where i: "initMcpClient e (initial_state :: 'j state) = (r, s0)"
    by (cases "initMcpClient e (initial_state :: 'j state)")
  from initMcpClient_effect[OF i] obtain evs ts where
    "s0 = (initial_state :: 'j state)\<lparr>openai := openai (initial_state :: 'j state) \<or> openai_api_key e,
            groq := groq (initial_state :: 'j state) \<or> groq_api_key e,
            client := True, trace := trace (initial_state :: 'j state) @ evs, tools := ts\<rparr>"
    by blast
  then have "client s0 \<and> openai s0 = openai_api_key e \<and> groq s0 = groq_api_key e
      \<and> messages s0 = [system_message]"
    by (simp add: initial_state_def)
  with i show ?thesis by (simp add: listen_def)
qed

lemma session_state:
  "client (run e (listen e) reqs) \<and> openai (run e (listen e) reqs) = openai_api_key e
   \<and> groq (run e (listen e) reqs) = groq_api_key e"
  using run_client[of "listen e" e reqs] listen_state[of e] by simp

lemma rooted_listen: "rooted (messages (listen e))"
  using listen_state[of e] by (simp add: rooted_def)

lemma assistant_only_scripted:
  "role first = Assistant \<Longrightarrow> assistant_only (scripted first tool)"
  by (auto simp: assistant_only_def completion_message_def scripted_def first_choice_def
      plain_answer_def split: if_splits)

lemma select_provider_unavailable:
  assumes "toLowerCase (requested_provider req) \<noteq> ''openai'' \<or> \<not> openai s"
      and "toLowerCase (requested_provider req) \<noteq> ''groq'' \<or> \<not> groq s"
  shows "select_provider s req =
     Inl (if toLowerCase (requested_provider req) = ''openai''
          then ''OpenAI not configured (missing API key)''
          else if toLowerCase (requested_provider req) = ''groq''
          then ''Groq not configured (missing API key)''
          else ''Unsupported provider: '' @ requested_provider req)"
  using assms by (auto simp: select_provider_def Let_def)

lemma turn_plain:
  assumes "completion_message e (trace s) c (first_request s sm p) = Inr m" "tool_calls m = None"
  shows "turn e c sp sm p s = (ok (content m) sp sm, answered s c sm p [m])"
  using assms by (simp add: turn_def complete_def answered_def Let_def)

section \<open>A turn with tool calls\<close>

lemma status_simps [simp]:
  "status (server_error err) = 500" "status (bad_request msg) = 400" "status (ok a sp sm) = 200"
  by (simp_all add: server_error_def bad_request_def ok_def)

lemma turn_with_calls:
  assumes m: "completion_message e (trace s) c (first_request s sm p) = Inr m"
      and tcs: "tool_calls m = Some tcs"
      and t: "turn e c sp sm p s = (resp, s')"
  shows "\<exists>tms evs.
           map tool_call_id tms = map (\<lambda>tc. Some (tc_id tc)) (take (length tms) (filter is_function tcs))
         \<and> map call_name evs = map fn_name (take (length evs) (filter is_function tcs))
         \<and> list_all (\<lambda>t. role t = Tool) tms \<and> list_all is_call evs \<and> length tms \<le> length evs
         \<and> ((\<exists>err. tool_loop e tcs (answered s c sm p [m]) = (Some err, s')
                 \<and> resp = server_error err \<and> s' = called s c sm p m tms evs)
            \<or> (length tms = length (filter is_function tcs) \<and> length evs = length tms
                \<and> ((\<exists>err. completion_message e (trace (called s c sm p m tms evs)) c
                             (follow_up sm (messages (called s c sm p m tms evs))) = Inl err
                       \<and> resp = server_error err
                       \<and> s' = (called s c sm p m tms evs)
                             \<lparr>trace := trace (called s c sm p m tms evs)
                                @ [Completion c (follow_up sm (messages (called s c sm p m tms evs)))]\<rparr>)
                   \<or> (\<exists>final. completion_message e (trace (called s c sm p m tms evs)) c
                             (follow_up sm (messages (called s c sm p m tms evs))) = Inr final
                       \<and> resp = ok (content final) sp sm
                       \<and> s' = (called s c sm p m tms evs)
                             \<lparr>trace := trace (called s c sm p m tms evs)
                                @ [Completion c (follow_up sm (messages (called s c sm p m tms evs)))],
                               messages := messages (called s c sm p m tms evs) @ [final]\<rparr>))))"
proof -
  have loop: "\<exists>tms evs. s4 = called s c sm p m tms evs
         \<and> map tool_call_id tms = map (\<lambda>tc. Some (tc_id tc)) (take (length tms) (filter is_function tcs))
         \<and> map call_name evs = map fn_name (take (length evs) (filter is_function tcs))
         \<and> list_all (\<lambda>t. role t = Tool) tms \<and> list_all is_call evs \<and> length tms \<le> length evs
         \<and> (r = None \<longrightarrow> length tms = length (filter is_function tcs) \<and> length evs = length tms)"
    if l: "tool_loop e tcs (answered s c sm p [m]) = (r, s4)" for r s4
  proof -
    from tool_loop_effect[OF l] obtain tms evs where
      s4: "s4 = (answered s c sm p [m])\<lparr>trace := trace (answered s c sm p [m]) @ evs,
                 messages := messages (answered s c sm p [m]) @ tms\<rparr>"
      and rest: "map tool_call_id tms = map (\<lambda>tc. Some (tc_id tc)) (take (length tms) (filter is_function tcs))"
        "map call_name evs = map fn_name (take (length evs) (filter is_function tcs))"
        "list_all (\<lambda>t. role t = Tool) tms" "list_all is_call evs" "length tms \<le> length evs"
        "r = None \<longrightarrow> length tms = length (filter is_function tcs) \<and> length evs = length tms"
      by blast
    from s4 have "s4 = called s c sm p m tms evs" by (simp add: answered_def called_def)
    with rest show ?thesis by blast
  qed
  from turn_cases[OF t] m tcs consider
    (c) err where "tool_loop e tcs (answered s c sm p [m]) = (Some err, s')" "resp = server_error err"
    | (d) s4 err where "tool_loop e tcs (answered s c sm p [m]) = (None, s4)"
        "completion_message e (trace s4) c (follow_up sm (messages s4)) = Inl err"
        "resp = server_error err"
        "s' = s4\<lparr>trace := trace s4 @ [Completion c (follow_up sm (messages s4))]\<rparr>"
    | (f) s4 final where "tool_loop e tcs (answered s c sm p [m]) = (None, s4)"
        "completion_message e (trace s4) c (follow_up sm (messages s4)) = Inr final"
        "resp = ok (content final) sp sm"
        "s' = s4\<lparr>trace := trace s4 @ [Completion c (follow_up sm (messages s4))],
                       messages := messages s4 @ [final]\<rparr>"
    by auto
  then show ?thesis
  proof cases
    case c
    from loop[OF c(1)] obtain tms evs where x: "s' = called s c sm p m tms evs"
      "map tool_call_id tms = map (\<lambda>tc. Some (tc_id tc)) (take (length tms) (filter is_function tcs))"
      "map call_name evs = map fn_name (take (length evs) (filter is_function tcs))"
      "list_all (\<lambda>t. role t = Tool) tms" "list_all is_call evs" "length tms \<le> length evs"
      by blast
    with c show ?thesis by blast
  next
    case d
    from loop[OF d(1)] obtain tms evs where x: "s4 = called s c sm p m tms evs"
      "map tool_call_id tms = map (\<lambda>tc. Some (tc_id tc)) (take (length tms) (filter is_function tcs))"
      "map call_name evs = map fn_name (take (length evs) (filter is_function tcs))"
      "list_all (\<lambda>t. role t = Tool) tms" "list_all is_call evs" "length tms \<le> length evs"
      "length tms = length (filter is_function tcs)" "length evs = length tms"
      by blast
    with d show ?thesis by blast
  next
    case f
    from loop[OF f(1)] obtain tms evs where x: "s4 = called s c sm p m tms evs"
      "map tool_call_id tms = map (\<lambda>tc. Some (tc_id tc)) (take (length tms) (filter is_function tcs))"
      "map call_name evs = map fn_name (take (length evs) (filter is_function tcs))"
      "list_all (\<lambda>t. role t = Tool) tms" "list_all is_call evs" "length tms \<le> length evs"
      "length tms = length (filter is_function tcs)" "length evs = length tms"
      by blast
    with f show ?thesis by blast
  qed
qed

lemma turn_trace:
  assumes t: "turn e c sp sm p s = (resp, s')"
  shows "\<exists>evs. trace s' = trace s @ evs \<and> length (filter is_completion evs) \<le> 2
           \<and> (length (filter is_completion evs) = 2 \<longrightarrow>
                (\<exists>ms tr. evs = tr @ [Completion c (follow_up sm ms)]
                   \<and> ((\<exists>err. completion_message e (trace s @ tr) c (follow_up sm ms) = Inl err
                          \<and> resp = server_error err \<and> messages s' = ms)
                      \<or> (\<exists>final. completion_message e (trace s @ tr) c (follow_up sm ms) = Inr final
                          \<and> resp = ok (content final) sp sm \<and> messages s' = ms @ [final]))))"
proof -
  let ?f = "Completion c (first_request s sm p)"
  have single: ?thesis if "trace s' = trace s @ ?f # evs" "list_all is_call evs" for evs
  proof -
    from that(2) have "filter is_completion (?f # evs) = [?f]"
      by (simp add: filter_completion_calls)
    with that(1) show ?thesis by (intro exI[of _ "?f # evs"]) simp
  qed
  from turn_cases[OF t] consider
    (a) "s' = answered s c sm p []"
    | (b) m where "s' = answered s c sm p [m]"
    | (c) m tcs where "completion_message e (trace s) c (first_request s sm p) = Inr m"
        "tool_calls m = Some tcs"
    by blast
  then show ?thesis
  proof cases
    case a
    then have "trace s' = trace s @ ?f # []" by (simp add: answered_def)
    then show ?thesis by (rule single) simp
  next
    case b
    then have "trace s' = trace s @ ?f # []" by (simp add: answered_def)
    then show ?thesis by (rule single) simp
  next
    case c
    from turn_with_calls[OF c t] obtain tms evs where
      calls: "list_all is_call evs"
      and cases: "s' = called s c sm p m tms evs
            \<or> ((\<exists>err. completion_message e (trace (called s c sm p m tms evs)) c
                             (follow_up sm (messages (called s c sm p m tms evs))) = Inl err
                       \<and> resp = server_error err
                       \<and> s' = (called s c sm p m tms evs)
                             \<lparr>trace := trace (called s c sm p m tms evs)
                                @ [Completion c (follow_up sm (messages (called s c sm p m tms evs)))]\<rparr>)
                   \<or> (\<exists>final. completion_message e (trace (called s c sm p m tms evs)) c
                             (follow_up sm (messages (called s c sm p m tms evs))) = Inr final
                       \<and> resp = ok (content final) sp sm
                       \<and> s' = (called s c sm p m tms evs)
                             \<lparr>trace := trace (called s c sm p m tms evs)
                                @ [Completion c (follow_up sm (messages (called s c sm p m tms evs)))],
                               messages := messages (called s c sm p m tms evs) @ [final]\<rparr>))"
      by blast
    let ?k = "called s c sm p m tms evs"
    have k: "trace ?k = trace s @ ?f # evs" by (simp add: called_def)
    from calls have two: "length (filter is_completion ((?f # evs) @ [Completion c (follow_up sm (messages ?k))])) = 2"
      by (simp add: filter_completion_calls)
    from cases show ?thesis
    proof (elim disjE)
      assume "s' = ?k"
      with k have "trace s' = trace s @ ?f # evs" by simp
      then show ?thesis using calls by (rule single)
    next
      assume "\<exists>err. completion_message e (trace ?k) c (follow_up sm (messages ?k)) = Inl err
                       \<and> resp = server_error err
                       \<and> s' = ?k\<lparr>trace := trace ?k @ [Completion c (follow_up sm (messages ?k))]\<rparr>"
      then obtain err where x: "completion_message e (trace s @ ?f # evs) c (follow_up sm (messages ?k)) = Inl err"
        "resp = server_error err" "messages s' = messages ?k"
        "trace s' = trace s @ (?f # evs) @ [Completion c (follow_up sm (messages ?k))]"
        using k by auto
      show ?thesis
        apply (rule exI[of _ "(?f # evs) @ [Completion c (follow_up sm (messages ?k))]"])
        apply (intro conjI impI)
        using x(4) apply simp
        using two apply simp
        apply (rule exI[of _ "messages ?k"])
        apply (rule exI[of _ "?f # evs"])
        using x(1,2,3) apply simp
        done
    next
      assume "\<exists>final. completion_message e (trace ?k) c (follow_up sm (messages ?k)) = Inr final
                       \<and> resp = ok (content final) sp sm
                       \<and> s' = ?k\<lparr>trace := trace ?k @ [Completion c (follow_up sm (messages ?k))],
                               messages := messages ?k @ [final]\<rparr>"
      then obtain final where x: "completion_message e (trace s @ ?f # evs) c (follow_up sm (messages ?k)) = Inr final"
        "resp = ok (content final) sp sm" "messages s' = messages ?k @ [final]"
        "trace s' = trace s @ (?f # evs) @ [Completion c (follow_up sm (messages ?k))]"
        using k by auto
      show ?thesis
        apply (rule exI[of _ "(?f # evs) @ [Completion c (follow_up sm (messages ?k))]"])
        apply (intro conjI impI)
        using x(4) apply simp
        using two apply simp
        apply (rule exI[of _ "messages ?k"])
        apply (rule exI[of _ "?f # evs"])
        using x(1,2,3) apply simp
        done
    qed
  qed
qed

section \<open>The tool loop, call by call\<close>

lemma answers_Nil: "answers e tr fs [] []"
  by (simp add: answers_def)

lemma answers_Cons:
  assumes "json_parse e (fn_arguments tc) = Inr a"
      and "callTool e tr (fn_name tc) a = Inr res"
      and "answers e (tr @ [CallTool (fn_name tc) a]) fs tms evs"
  shows "answers e tr (tc # fs) (tool_message e tc res # tms) (CallTool (fn_name tc) a # evs)"
  unfolding answers_def
proof (intro allI impI)
  fix k assume k: "k < length (tool_message e tc res # tms)"
  show "\<exists>a' res'.
        json_parse e (fn_arguments ((tc # fs) ! k)) = Inr a'
      \<and> (CallTool (fn_name tc) a # evs) ! k = CallTool (fn_name ((tc # fs) ! k)) a'
      \<and> callTool e (tr @ take k (CallTool (fn_name tc) a # evs)) (fn_name ((tc # fs) ! k)) a' = Inr res'
      \<and> (tool_message e tc res # tms) ! k
          = \<lparr>role = Tool, content = Some (json_stringify e (result_content res')),
             tool_calls = None, tool_call_id = Some (tc_id ((tc # fs) ! k))\<rparr>"
  proof (cases k)
    case 0
    with assms(1,2) show ?thesis
      by (intro exI[of _ a] exI[of _ res]) (simp add: tool_message_def)
  next
    case (Suc j)
    with k have "j < length tms" by simp
    with assms(3) obtain a' res' where
      x: "json_parse e (fn_arguments (fs ! j)) = Inr a'"
      "evs ! j = CallTool (fn_name (fs ! j)) a'"
      "callTool e ((tr @ [CallTool (fn_name tc) a]) @ take j evs) (fn_name (fs ! j)) a' = Inr res'"
      "tms ! j = \<lparr>role = Tool, content = Some (json_stringify e (result_content res')),
                    tool_calls = None, tool_call_id = Some (tc_id (fs ! j))\<rparr>"
      unfolding answers_def by blast
    with Suc show ?thesis
      by (intro exI[of _ a'] exI[of _ res']) simp
  qed
qed

lemma tool_loop_calls:
  assumes "tool_loop e tcs s = (r, s')"
  shows "\<exists>tms evs extra.
           s' = s\<lparr>trace := trace s @ evs @ extra, messages := messages s @ tms\<rparr>
         \<and> length evs = length tms
         \<and> answers e (trace s) (filter is_function tcs) tms evs
         \<and> (r = None \<longrightarrow> extra = [] \<and> length tms = length (filter is_function tcs))
         \<and> (\<forall>err. r = Some err \<longrightarrow>
               length tms < length (filter is_function tcs)
             \<and> raises e (trace s @ evs) (filter is_function tcs ! length tms) extra err)"
  using assms
proof (induction tcs arbitrary: s)
  case Nil
  then have "s' = s" "r = None" by auto
  then show ?case
    by (intro exI[of _ "[]"]) (simp add: answers_Nil)
next
  case (Cons tc tcs)
  show ?case
  proof (cases "is_function tc")
    case False
    with Cons.prems have "tool_loop e tcs s = (r, s')" by (simp add: is_function_def)
    from Cons.IH[OF this] False show ?thesis by simp
  next
    case fn: True
    then have ty: "tc_type tc = ''function''" by (simp add: is_function_def)
    show ?thesis
    proof (cases "json_parse e (fn_arguments tc)")
      case (Inl err)
      with ty Cons.prems have "s' = s" "r = Some err" by auto
      with Inl fn show ?thesis
        by (intro exI[of _ "[]"]) (simp add: answers_Nil raises_def)
    next
      case (Inr a)
      let ?ev = "CallTool (fn_name tc) a"
      show ?thesis
      proof (cases "callTool e (trace s) (fn_name tc) a")
        case (Inl err)
        with ty Inr Cons.prems have "s' = s\<lparr>trace := trace s @ [?ev]\<rparr>" "r = Some err"
          by (auto simp: Let_def)
        with Inl Inr fn show ?thesis
          apply -
          apply (rule exI[of _ "[]"], rule exI[of _ "[]"], rule exI[of _ "[?ev]"])
          apply (simp add: answers_Nil raises_def)
          done
      next
        case res: (Inr res)
        let ?t = "tool_message e tc res"
        let ?s2 = "s\<lparr>trace := trace s @ [?ev], messages := messages s @ [?t]\<rparr>"
        from ty Inr res Cons.prems have "tool_loop e tcs ?s2 = (r, s')" by (simp add: Let_def)
        from Cons.IH[OF this] obtain tms evs extra where
          a: "s' = ?s2\<lparr>trace := trace ?s2 @ evs @ extra, messages := messages ?s2 @ tms\<rparr>"
          and b: "length evs = length tms"
          and c: "answers e (trace ?s2) (filter is_function tcs) tms evs"
          and d: "r = None \<longrightarrow> extra = [] \<and> length tms = length (filter is_function tcs)"
          and f: "\<forall>err. r = Some err \<longrightarrow>
               length tms < length (filter is_function tcs)
             \<and> raises e (trace ?s2 @ evs) (filter is_function tcs ! length tms) extra err"
          by blast
        from c have "answers e (trace s @ [?ev]) (filter is_function tcs) tms evs" by simp
        from answers_Cons[OF Inr res this]
        have c': "answers e (trace s) (filter is_function (tc # tcs)) (?t # tms) (?ev # evs)"
          using fn by simp
        from a have a': "s' = s\<lparr>trace := trace s @ (?ev # evs) @ extra,
                               messages := messages s @ (?t # tms)\<rparr>"
          by simp
        from f fn have f': "\<forall>err. r = Some err \<longrightarrow>
               length (?t # tms) < length (filter is_function (tc # tcs))
             \<and> raises e (trace s @ (?ev # evs))
                  (filter is_function (tc # tcs) ! length (?t # tms)) extra err"
          by simp
        from d fn have d': "r = None \<longrightarrow> extra = []
            \<and> length (?t # tms) = length (filter is_function (tc # tcs))"
          by simp
        from b have b': "length (?ev # evs) = length (?t # tms)" by simp
        from a' b' c' d' f' show ?thesis by blast
      qed
    qed
  qed
qed

lemma turn_calls:
  assumes m: "completion_message e (trace s) c (first_request s sm p) = Inr m"
      and tcs: "tool_calls m = Some tcs"
      and t: "turn e c sp sm p s = (resp, s')"
  shows "\<exists>tms evs.
           length evs = length tms
         \<and> answers e (trace s @ [Completion c (first_request s sm p)]) (filter is_function tcs) tms evs
         \<and> ((\<exists>err extra. length tms < length (filter is_function tcs)
                 \<and> raises e (trace s @ [Completion c (first_request s sm p)] @ evs)
                      (filter is_function tcs ! length tms) extra err
                 \<and> resp = server_error err
                 \<and> messages s' = limit_history (messages s @ [user_message p]) @ m # tms
                 \<and> trace s' = trace s @ [Completion c (first_request s sm p)] @ evs @ extra)
            \<or> (length tms = length (filter is_function tcs)
                \<and> trace s' = trace s @ [Completion c (first_request s sm p)] @ evs
                     @ [Completion c (follow_up sm (limit_history (messages s @ [user_message p]) @ m # tms))]
                \<and> ((\<exists>err. completion_message e (trace s @ [Completion c (first_request s sm p)] @ evs) c
                             (follow_up sm (limit_history (messages s @ [user_message p]) @ m # tms)) = Inl err
                       \<and> resp = server_error err
                       \<and> messages s' = limit_history (messages s @ [user_message p]) @ m # tms)
                   \<or> (\<exists>final. completion_message e (trace s @ [Completion c (first_request s sm p)] @ evs) c
                             (follow_up sm (limit_history (messages s @ [user_message p]) @ m # tms)) = Inr final
                       \<and> resp = ok (content final) sp sm
                       \<and> messages s' = limit_history (messages s @ [user_message p]) @ m # tms @ [final]))))"
proof -
  let ?T = "trace s @ [Completion c (first_request s sm p)]"
  let ?W = "limit_history (messages s @ [user_message p])"
  let ?fs = "filter is_function tcs"
  let ?s3 = "answered s c sm p [m]"
  have s3: "trace ?s3 = ?T" "messages ?s3 = ?W @ [m]" by (simp_all add: answered_def)
  obtain r s4 where loop: "tool_loop e tcs ?s3 = (r, s4)" by (cases "tool_loop e tcs ?s3")
  from tool_loop_calls[OF loop] s3 obtain tms evs extra where
    s4: "trace s4 = ?T @ evs @ extra" "messages s4 = ?W @ m # tms"
    and len: "length evs = length tms"
    and ans: "answers e ?T ?fs tms evs"
    and none: "r = None \<longrightarrow> extra = [] \<and> length tms = length ?fs"
    and some: "\<forall>err. r = Some err \<longrightarrow> length tms < length ?fs \<and> raises e (?T @ evs) (?fs ! length tms) extra err"
    by auto
  from turn_cases[OF t] m tcs loop consider
    (c) err where "r = Some err" "s' = s4" "resp = server_error err"
    | (d) err where "r = None"
        "completion_message e (trace s4) c (follow_up sm (messages s4)) = Inl err"
        "resp = server_error err"
        "s' = s4\<lparr>trace := trace s4 @ [Completion c (follow_up sm (messages s4))]\<rparr>"
    | (f) final where "r = None"
        "completion_message e (trace s4) c (follow_up sm (messages s4)) = Inr final"
        "resp = ok (content final) sp sm"
        "s' = s4\<lparr>trace := trace s4 @ [Completion c (follow_up sm (messages s4))],
                       messages := messages s4 @ [final]\<rparr>"
    by auto
  then show ?thesis
  proof cases
    case c
    from some c(1) have "length tms < length ?fs" "raises e (?T @ evs) (?fs ! length tms) extra err"
      by simp_all
    with c s4 have "\<exists>err extra. length tms < length ?fs
                 \<and> raises e (trace s @ [Completion c (first_request s sm p)] @ evs)
                      (?fs ! length tms) extra err
                 \<and> resp = server_error err
                 \<and> messages s' = ?W @ m # tms
                 \<and> trace s' = trace s @ [Completion c (first_request s sm p)] @ evs @ extra"
      by (intro exI[of _ err] exI[of _ extra]) simp
    with len ans show ?thesis by blast
  next
    case d
    from none d(1) have e: "extra = []" "length tms = length ?fs" by simp_all
    from d s4 e have x: "completion_message e (?T @ evs) c (follow_up sm (?W @ m # tms)) = Inl err"
      "messages s' = ?W @ m # tms"
      "trace s' = ?T @ evs @ [Completion c (follow_up sm (?W @ m # tms))]"
      by simp_all
    from x(1,2) d(3) have "\<exists>err. completion_message e (trace s @ [Completion c (first_request s sm p)] @ evs) c
                             (follow_up sm (?W @ m # tms)) = Inl err
                       \<and> resp = server_error err
                       \<and> messages s' = ?W @ m # tms"
      by (intro exI[of _ err]) simp
    moreover from x(3) have "trace s' = trace s @ [Completion c (first_request s sm p)] @ evs
                     @ [Completion c (follow_up sm (?W @ m # tms))]" by simp
    ultimately show ?thesis using len ans e(2) by blast
  next
    case f
    from none f(1) have e: "extra = []" "length tms = length ?fs" by simp_all
    from f s4 e have x: "completion_message e (?T @ evs) c (follow_up sm (?W @ m # tms)) = Inr final"
      "messages s' = ?W @ m # tms @ [final]"
      "trace s' = ?T @ evs @ [Completion c (follow_up sm (?W @ m # tms))]"
      by simp_all
    from x(1,2) f(3) have "\<exists>final. completion_message e (trace s @ [Completion c (first_request s sm p)] @ evs) c
                             (follow_up sm (?W @ m # tms)) = Inr final
                       \<and> resp = ok (content final) sp sm
                       \<and> messages s' = ?W @ m # tms @ [final]"
      by (intro exI[of _ final]) simp
    moreover from x(3) have "trace s' = trace s @ [Completion c (first_request s sm p)] @ evs
                     @ [Completion c (follow_up sm (?W @ m # tms))]" by simp
    ultimately show ?thesis using len ans e(2) by blast
  qed
qed

lemma turn_trace_exact:
  assumes t: "turn e c sp sm p s = (resp, s')"
  shows "\<exists>evs. trace s' = trace s @ evs \<and> length (filter is_completion evs) \<le> 2
           \<and> (length (filter is_completion evs) = 2 \<longrightarrow>
                (\<exists>b tr. evs = tr @ [Completion c b]
                   \<and> cb_tools b = None \<and> cb_model b = sm
                   \<and> ((\<exists>err. completion_message e (trace s @ tr) c b = Inl err
                          \<and> resp = \<lparr>status = 500, body = ErrorPayload (err_message err)\<rparr>
                          \<and> messages s' = cb_messages b)
                      \<or> (\<exists>final. completion_message e (trace s @ tr) c b = Inr final
                          \<and> resp = \<lparr>status = 200, body = ChatPayload (content final) sp sm\<rparr>
                          \<and> messages s' = cb_messages b @ [final]))))"
proof -
  from turn_trace[OF t] obtain evs where
    a: "trace s' = trace s @ evs" "length (filter is_completion evs) \<le> 2"
    and two: "length (filter is_completion evs) = 2 \<longrightarrow>
                (\<exists>ms tr. evs = tr @ [Completion c (follow_up sm ms)]
                   \<and> ((\<exists>err. completion_message e (trace s @ tr) c (follow_up sm ms) = Inl err
                          \<and> resp = server_error err \<and> messages s' = ms)
                      \<or> (\<exists>final. completion_message e (trace s @ tr) c (follow_up sm ms) = Inr final
                          \<and> resp = ok (content final) sp sm \<and> messages s' = ms @ [final])))"
    by blast
  have "\<exists>b tr. evs = tr @ [Completion c b]
                   \<and> cb_tools b = None \<and> cb_model b = sm
                   \<and> ((\<exists>err. completion_message e (trace s @ tr) c b = Inl err
                          \<and> resp = \<lparr>status = 500, body = ErrorPayload (err_message err)\<rparr>
                          \<and> messages s' = cb_messages b)
                      \<or> (\<exists>final. completion_message e (trace s @ tr) c b = Inr final
                          \<and> resp = \<lparr>status = 200, body = ChatPayload (content final) sp sm\<rparr>
                          \<and> messages s' = cb_messages b @ [final]))"
    if "length (filter is_completion evs) = 2"
  proof -
    from two that obtain ms tr where x: "evs = tr @ [Completion c (follow_up sm ms)]"
      and y: "(\<exists>err. completion_message e (trace s @ tr) c (follow_up sm ms) = Inl err
                          \<and> resp = server_error err \<and> messages s' = ms)
                      \<or> (\<exists>final. completion_message e (trace s @ tr) c (follow_up sm ms) = Inr final
                          \<and> resp = ok (content final) sp sm \<and> messages s' = ms @ [final])"
      by blast
    have f: "cb_tools (follow_up sm ms :: 'a completion_body) = None"
      "cb_model (follow_up sm ms :: 'a completion_body) = sm"
      "cb_messages (follow_up sm ms :: 'a completion_body) = ms"
      by (simp_all add: follow_up_def)
    from y f(3) have "(\<exists>err. completion_message e (trace s @ tr) c (follow_up sm ms) = Inl err
                          \<and> resp = \<lparr>status = 500, body = ErrorPayload (err_message err)\<rparr>
                          \<and> messages s' = cb_messages (follow_up sm ms :: 'a completion_body))
                      \<or> (\<exists>final. completion_message e (trace s @ tr) c (follow_up sm ms) = Inr final
                          \<and> resp = \<lparr>status = 200, body = ChatPayload (content final) sp sm\<rparr>
                          \<and> messages s' = cb_messages (follow_up sm ms :: 'a completion_body) @ [final])"
      by (auto simp: server_error_def ok_def)
    with x f(1,2) show ?thesis by blast
  qed
  with a show ?thesis by blast
qed

lemma turn_pushes:
  assumes t: "turn e c sp sm p s = (resp, s')"
  shows "\<exists>ext. messages s' = limit_history (messages s @ [user_message p]) @ ext
           \<and> (\<forall>m. completion_message e (trace s) c (first_request s sm p) = Inr m \<longrightarrow>
                 (\<exists>ext'. ext = m # ext') \<and> (tool_calls m = None \<longrightarrow> ext = [m]))
           \<and> (\<forall>err. completion_message e (trace s) c (first_request s sm p) = Inl err \<longrightarrow> ext = [])"
proof -
  let ?W = "limit_history (messages s @ [user_message p])"
  let ?r = "completion_message e (trace s) c (first_request s sm p)"
  show ?thesis
  proof (cases ?r)
    case (Inl err)
    with turn_cases[OF t] have "s' = answered s c sm p []" by auto
    then have "messages s' = ?W @ []" by (simp add: answered_def)
    with Inl show ?thesis by (intro exI[of _ "[]"]) simp
  next
    case (Inr m)
    show ?thesis
    proof (cases "tool_calls m")
      case None
      with Inr turn_cases[OF t] have "s' = answered s c sm p [m]" by auto
      then have "messages s' = ?W @ [m]" by (simp add: answered_def)
      with Inr None show ?thesis by (intro exI[of _ "[m]"]) simp
    next
      case (Some tcs)
      from turn_calls[OF Inr Some t] obtain tms rest where
        "messages s' = ?W @ m # tms @ rest"
        by (metis append_Nil2)
      with Inr Some show ?thesis by (intro exI[of _ "m # tms @ rest"]) simp
    qed
  qed
qed

section \<open>A request with tool calls, with the records written out\<close>

lemma chat_calls:
  assumes "client s" "prompt req = Some p" "p \<noteq> []"
      and "select_provider s req = Inr (c, sp, sm)"
      and m: "completion_message e (trace s) c (first_request s sm p) = Inr m"
      and tcs: "tool_calls m = Some tcs"
      and ch: "chat e req s = (resp, s')"
  shows "\<exists>tms evs.
           length evs = length tms
         \<and> answers e (trace s @ [Completion c (first_request s sm p)]) (filter is_function tcs) tms evs
         \<and> ((\<exists>err extra. length tms < length (filter is_function tcs)
                 \<and> raises e (trace s @ [Completion c (first_request s sm p)] @ evs)
                      (filter is_function tcs ! length tms) extra err
                 \<and> resp = \<lparr>status = 500, body = ErrorPayload (err_message err)\<rparr>
                 \<and> messages s' = limit_history (messages s
                       @ [\<lparr>role = User, content = Some p, tool_calls = None, tool_call_id = None\<rparr>])
                     @ m # tms
                 \<and> trace s' = trace s @ [Completion c (first_request s sm p)] @ evs @ extra)
            \<or> (length tms = length (filter is_function tcs)
                \<and> trace s' = trace s @ [Completion c (first_request s sm p)] @ evs
                     @ [Completion c
                          \<lparr>cb_model = sm,
                           cb_messages = limit_history (messages s
                               @ [\<lparr>role = User, content = Some p, tool_calls = None, tool_call_id = None\<rparr>])
                             @ m # tms,
                           cb_tools = None\<rparr>]
                \<and> ((\<exists>err. completion_message e (trace s @ [Completion c (first_request s sm p)] @ evs) c
                             \<lparr>cb_model = sm,
                              cb_messages = limit_history (messages s
                                  @ [\<lparr>role = User, content = Some p, tool_calls = None, tool_call_id = None\<rparr>])
                                @ m # tms,
                              cb_tools = None\<rparr> = Inl err
                       \<and> resp = \<lparr>status = 500, body = ErrorPayload (err_message err)\<rparr>
                       \<and> messages s' = limit_history (messages s
                             @ [\<lparr>role = User, content = Some p, tool_calls = None, tool_call_id = None\<rparr>])
                           @ m # tms)
                   \<or> (\<exists>final. completion_message e (trace s @ [Completion c (first_request s sm p)] @ evs) c
                             \<lparr>cb_model = sm,
                              cb_messages = limit_history (messages s
                                  @ [\<lparr>role = User, content = Some p, tool_calls = None, tool_call_id = None\<rparr>])
                                @ m # tms,
                              cb_tools = None\<rparr> = Inr final
                       \<and> resp = \<lparr>status = 200, body = ChatPayload (content final) sp sm\<rparr>
                       \<and> messages s' = limit_history (messages s
                             @ [\<lparr>role = User, content = Some p, tool_calls = None, tool_call_id = None\<rparr>])
                           @ m # tms @ [final]))))"
proof -
  from chat_turn[OF assms(1-4)] ch have t: "turn e c sp sm p s = (resp, s')" by simp
  from turn_calls[OF m tcs t] show ?thesis
    unfolding server_error_def ok_def follow_up_def user_message_def .
qed

lemma raises_excluded:
  assumes "\<forall>tc \<in> set tcs. is_function tc \<longrightarrow> (\<exists>a. json_parse e (fn_arguments tc) = Inr a)"
      and "\<forall>tr n a. \<exists>res. callTool e tr n a = Inr res"
      and "k < length (filter is_function tcs)"
  shows "\<not> raises e tr (filter is_function tcs ! k) extra err"
proof
  assume r: "raises e tr (filter is_function tcs ! k) extra err"
  let ?tc = "filter is_function tcs ! k"
  from assms(3) have "?tc \<in> set (filter is_function tcs)" by (rule nth_mem)
  then have "?tc \<in> set tcs" "is_function ?tc" by simp_all
  with assms(1) obtain a where a: "json_parse e (fn_arguments ?tc) = Inr a" by blast
  from r a have "callTool e tr (fn_name ?tc) a = Inl err" by (auto simp: raises_def)
  moreover from assms(2) obtain res where "callTool e tr (fn_name ?tc) a = Inr res" by blast
  ultimately show False by simp
qed

section \<open>The claims\<close>

text \<open>
  C8. The tool specs of a request are a function of the tool descriptors alone: one spec per
  descriptor, in order, of type \<^verbatim>\<open>function\<close>, with the name and the description of the
  descriptor and its input schema as the parameters; the first request of a turn carries
  these specs whatever the history, the model and the prompt are.
\<close>

theorem completion_tools_verbatim:
  "length (completion_tools ts) = length ts
   \<and> map fs_name (completion_tools ts) = map name ts
   \<and> map fs_description (completion_tools ts) = map description ts
   \<and> map fs_parameters (completion_tools ts) = map inputSchema ts
   \<and> map fs_type (completion_tools ts) = replicate (length ts) ''function''
   \<and> cb_tools (first_request s selectedModel p) = Some (completion_tools (tools s))"
  by (simp add: completion_tools_def function_spec_of_def first_request_def comp_def map_replicate_const)

text \<open>
  C1 (as amended). The history limit is a plain recency cut. In a history of more than 10
  messages, a message that is not the first and is followed by fewer than 9 messages is
  kept together with everything after it, so an assistant message that is kept keeps the
  tool messages that answer it. A message that is not the first and is followed by 9 or more
  messages is dropped, and the window is the first message with the last 9 of the messages
  after it: a tool message among those is kept without the assistant message that asked
  for it.
\<close>

theorem limit_history_recency_cut:
  assumes "10 < length h" "h = pre @ m # post" "pre \<noteq> []"
  shows "(length post < 9 \<longrightarrow> (\<exists>pre'. limit_history h = pre' @ m # post))
       \<and> (9 \<le> length post \<longrightarrow> limit_history h = hd h # drop (length post - 9) post)"
proof (intro conjI impI)
  assume short: "length post < 9"
  let ?k = "length h - 9"
  from assms short have k: "?k \<le> length pre" by simp
  then have "drop ?k h = drop ?k pre @ m # post" using assms(2) by simp
  with assms(1) have "limit_history h = (hd h # drop ?k pre) @ m # post"
    by (simp add: limit_history_long)
  then show "\<exists>pre'. limit_history h = pre' @ m # post" ..
next
  assume long: "9 \<le> length post"
  from assms(2) have len: "length h = length pre + 1 + length post" by simp
  with long have "length h - 9 = length pre + Suc (length post - 9)" by simp
  then have "drop (length h - 9) h = drop (length pre + Suc (length post - 9)) (pre @ m # post)"
    using assms(2) by simp
  also have "\<dots> = drop (Suc (length post - 9)) (m # post)"
    by (rule drop_length_append)
  also have "\<dots> = drop (length post - 9) post" by simp
  finally have "drop (length h - 9) h = drop (length post - 9) post" .
  with assms(1) show "limit_history h = hd h # drop (length post - 9) post"
    by (simp add: limit_history_long)
qed

text \<open>The cut at the fifth prompt of \<open>tool_session\<close>: the assistant message is dropped, the
  tool message that answers it is kept.\<close>

theorem limit_history_recency_cut_witness:
  "limit_history ([system_message, user_message ''hi''] @ asking [lookup_call] # later)
     = system_message # later
   \<and> (\<exists>pre'. limit_history ([system_message, user_message ''hi'', asking [lookup_call]]
                   @ hd later # tl later) = pre' @ hd later # tl later)
   \<and> messages (run tool_session (listen tool_session) [hi, hi, hi, hi]) @ [user_message ''hi'']
     = [system_message, user_message ''hi''] @ asking [lookup_call] # later"
proof -
  have a: "limit_history ([system_message, user_message ''hi''] @ asking [lookup_call] # later)
     = system_message # later"
    using limit_history_recency_cut
      [of "[system_message, user_message ''hi''] @ asking [lookup_call] # later"
          "[system_message, user_message ''hi'']" "asking [lookup_call]" later]
    by (simp add: later_def)
  have b: "\<exists>pre'. limit_history ([system_message, user_message ''hi'', asking [lookup_call]]
                   @ hd later # tl later) = pre' @ hd later # tl later"
    using limit_history_recency_cut
      [of "[system_message, user_message ''hi'', asking [lookup_call]] @ hd later # tl later"
          "[system_message, user_message ''hi'', asking [lookup_call]]" "hd later" "tl later"]
    by (simp add: later_def)
  have c: "messages (run tool_session (listen tool_session) [hi, hi, hi, hi]) @ [user_message ''hi'']
     = [system_message, user_message ''hi''] @ asking [lookup_call] # later"
    by code_simp
  from a b c show ?thesis by blast
qed

text \<open>
  C1 as stated fails: before the fifth prompt of \<open>tool_session\<close> every tool message of the
  history answers an assistant message of the history; the window sent with the fifth
  prompt, and the history after it, hold the tool message without the assistant message.
\<close>

theorem recency_cut_splits_pair:
  "paired (messages (run tool_session (listen tool_session) [hi, hi, hi, hi]))
   \<and> paired (messages (run tool_session (listen tool_session) [hi, hi, hi, hi]) @ [user_message ''hi''])
   \<and> \<not> paired (cb_messages (first_request (run tool_session (listen tool_session) [hi, hi, hi, hi])
                   ''llama-3.1-8b-instant'' ''hi''))
   \<and> \<not> paired (messages (run tool_session (listen tool_session) [hi, hi, hi, hi, hi]))"
  by code_simp

text \<open>
  C6. In every session, whatever the requests handled so far, a request with a prompt whose
  provider is neither \<^verbatim>\<open>openai\<close> nor \<^verbatim>\<open>groq\<close> (in any letter case), or is one of them with
  its API key missing, is answered with status 400 and the message of the configuration
  error, and the state is left as it was: no message is pushed and no request is issued to
  the provider or to the tool endpoint.
\<close>

theorem unavailable_provider_rejected:
  assumes "s = run e (listen e) reqs"
      and "prompt req = Some p" "p \<noteq> []"
      and "toLowerCase (requested_provider req) \<noteq> ''openai'' \<or> \<not> openai_api_key e"
      and "toLowerCase (requested_provider req) \<noteq> ''groq'' \<or> \<not> groq_api_key e"
  shows "chat e req s =
     (bad_request
        (if toLowerCase (requested_provider req) = ''openai''
         then ''OpenAI not configured (missing API key)''
         else if toLowerCase (requested_provider req) = ''groq''
         then ''Groq not configured (missing API key)''
         else ''Unsupported provider: '' @ requested_provider req), s)"
proof -
  from session_state[of e reqs] assms(1)
  have st: "client s" "openai s = openai_api_key e" "groq s = groq_api_key e" by simp_all
  from st assms(4,5) have
    "toLowerCase (requested_provider req) \<noteq> ''openai'' \<or> \<not> openai s"
    "toLowerCase (requested_provider req) \<noteq> ''groq'' \<or> \<not> groq s"
    by simp_all
  from select_provider_unavailable[OF this] chat_ready[OF st(1) assms(2,3), of e]
  show ?thesis by simp
qed

text \<open>In \<open>quiet_session\<close> (a Groq key only), after one turn: an unknown provider, and OpenAI
  without its key.\<close>

theorem unavailable_provider_rejected_witness:
  "chat quiet_session \<lparr>prompt = Some ''hi'', provider = Some ''unknown'', model = None\<rparr>
       (run quiet_session (listen quiet_session) [hi])
     = (bad_request ''Unsupported provider: unknown'', run quiet_session (listen quiet_session) [hi])
   \<and> chat quiet_session \<lparr>prompt = Some ''hi'', provider = Some ''OpenAI'', model = None\<rparr>
       (run quiet_session (listen quiet_session) [hi])
     = (bad_request ''OpenAI not configured (missing API key)'',
        run quiet_session (listen quiet_session) [hi])"
proof -
  have k: "\<not> openai_api_key quiet_session"
    by (simp add: quiet_session_def scripted_def)
  have u: "toLowerCase (requested_provider \<lparr>prompt = Some ''hi'', provider = Some ''unknown'', model = None\<rparr>)
      = ''unknown''"
    by code_simp
  have o: "toLowerCase (requested_provider \<lparr>prompt = Some ''hi'', provider = Some ''OpenAI'', model = None\<rparr>)
      = ''openai''"
    by code_simp
  have r: "requested_provider \<lparr>prompt = Some ''hi'', provider = Some ''unknown'', model = None\<rparr> = ''unknown''"
    by (simp add: requested_provider_def)
  from unavailable_provider_rejected
    [of "run quiet_session (listen quiet_session) [hi]" quiet_session "[hi]"
        "\<lparr>prompt = Some ''hi'', provider = Some ''unknown'', model = None\<rparr>" "''hi''"]
    u r
  have a: "chat quiet_session \<lparr>prompt = Some ''hi'', provider = Some ''unknown'', model = None\<rparr>
       (run quiet_session (listen quiet_session) [hi])
     = (bad_request ''Unsupported provider: unknown'', run quiet_session (listen quiet_session) [hi])"
    by simp
  from unavailable_provider_rejected
    [of "run quiet_session (listen quiet_session) [hi]" quiet_session "[hi]"
        "\<lparr>prompt = Some ''hi'', provider = Some ''OpenAI'', model = None\<rparr>" "''hi''"]
    o k
  have b: "chat quiet_session \<lparr>prompt = Some ''hi'', provider = Some ''OpenAI'', model = None\<rparr>
       (run quiet_session (listen quiet_session) [hi])
     = (bad_request ''OpenAI not configured (missing API key)'',
        run quiet_session (listen quiet_session) [hi])"
    by simp
  from a b show ?thesis ..
qed

text \<open>
  C7 (as amended). For every user turn whose completion answers with a message that has
  no \<^verbatim>\<open>tool_calls\<close> field, one completion request is issued, the answer returned is the
  content of that message, and the history becomes the window (the old history with the
  user message, cut to the first message and the last 9 when longer than 10) followed by
  that message: it grows by exactly 2 when it had fewer than 10 messages, and has 11
  messages otherwise.
\<close>

theorem turn_without_tool_calls:
  assumes "client s" "prompt req = Some p" "p \<noteq> []"
      and "select_provider s req = Inr (c, sp, sm)"
      and "completion_message e (trace s) c (first_request s sm p) = Inr m"
      and "tool_calls m = None"
  shows "chat e req s =
           (\<lparr>status = 200, body = ChatPayload (content m) sp sm\<rparr>,
            s\<lparr>trace := trace s @ [Completion c (first_request s sm p)],
              messages := limit_history (messages s
                  @ [\<lparr>role = User, content = Some p, tool_calls = None, tool_call_id = None\<rparr>])
                @ [m]\<rparr>)
       \<and> length (messages (snd (chat e req s))) =
           (if length (messages s) < 10 then length (messages s) + 2 else 11)"
proof -
  from chat_turn[OF assms(1-4)] turn_plain[OF assms(5,6)]
  have eq: "chat e req s = (ok (content m) sp sm, answered s c sm p [m])" by simp
  have "length (messages (answered s c sm p [m])) =
           (if length (messages s) < 10 then length (messages s) + 2 else 11)"
    by (simp add: answered_def length_limit_history)
  with eq show ?thesis by (simp add: answered_def ok_def user_message_def)
qed

text \<open>The second and the sixth turn of \<open>quiet_session\<close>.\<close>

theorem turn_without_tool_calls_witness:
  "fst (chat quiet_session hi (run quiet_session (listen quiet_session) [hi]))
     = \<lparr>status = 200, body = ChatPayload (Some ''Hello.'') ''groq'' ''llama-3.1-8b-instant''\<rparr>
   \<and> length (messages (snd (chat quiet_session hi (run quiet_session (listen quiet_session) [hi])))) = 5
   \<and> length (messages (run quiet_session (listen quiet_session) [hi])) = 3
   \<and> length (messages (snd (chat quiet_session hi
        (run quiet_session (listen quiet_session) [hi, hi, hi, hi, hi])))) = 11"
proof -
  let ?s1 = "run quiet_session (listen quiet_session) [hi]"
  let ?s5 = "run quiet_session (listen quiet_session) [hi, hi, hi, hi, hi]"
  have h: "prompt hi = Some ''hi''" "''hi'' \<noteq> []" by (simp_all add: hi_def)
  have c1: "client ?s1" and c5: "client ?s5"
    by code_simp+
  have p1: "select_provider ?s1 hi = Inr (Groq, ''groq'', ''llama-3.1-8b-instant'')" by code_simp
  have p5: "select_provider ?s5 hi = Inr (Groq, ''groq'', ''llama-3.1-8b-instant'')" by code_simp
  have m1: "completion_message quiet_session (trace ?s1) Groq
      (first_request ?s1 ''llama-3.1-8b-instant'' ''hi'') = Inr plain_answer"
    by code_simp
  have m5: "completion_message quiet_session (trace ?s5) Groq
      (first_request ?s5 ''llama-3.1-8b-instant'' ''hi'') = Inr plain_answer"
    by code_simp
  have n: "tool_calls plain_answer = None" "content plain_answer = Some ''Hello.''"
    by (simp_all add: plain_answer_def)
  have l1: "length (messages ?s1) = 3" by code_simp
  have l5: "length (messages ?s5) = 11" by code_simp
  note t1 = turn_without_tool_calls[OF c1 h p1 m1 n(1)]
  note t5 = turn_without_tool_calls[OF c5 h p5 m5 n(1)]
  from t1[THEN conjunct1] n(2)
  have a1: "fst (chat quiet_session hi ?s1)
      = \<lparr>status = 200, body = ChatPayload (Some ''Hello.'') ''groq'' ''llama-3.1-8b-instant''\<rparr>"
    by (simp del: run.simps)
  from t1[THEN conjunct2] l1
  have a2: "length (messages (snd (chat quiet_session hi ?s1))) = 5"
    by (simp del: run.simps)
  from t5[THEN conjunct2] l5
  have b: "length (messages (snd (chat quiet_session hi ?s5))) = 11"
    by (simp del: run.simps)
  from a1 a2 b l1 show ?thesis by (simp del: run.simps)
qed

text \<open>
  C7 as stated fails once the history is cut: no turn of \<open>quiet_session\<close> requests a tool,
  the sixth turn issues its single completion and returns its content, and the history has
  11 messages before it and 11 after it.
\<close>

theorem sixth_turn_does_not_grow:
  "length (messages (run quiet_session (listen quiet_session) [hi, hi, hi, hi, hi])) = 11
   \<and> length (messages (run quiet_session (listen quiet_session) [hi, hi, hi, hi, hi, hi])) = 11
   \<and> fst (chat quiet_session hi (run quiet_session (listen quiet_session) [hi, hi, hi, hi, hi]))
       = \<lparr>status = 200, body = ChatPayload (Some ''Hello.'') ''groq'' ''llama-3.1-8b-instant''\<rparr>
   \<and> length (filter is_completion (trace (run quiet_session (listen quiet_session) [hi, hi, hi, hi, hi, hi]))) = 6"
  by code_simp

text \<open>
  C4. Every request issues at most two completion requests. When it issues two, the second
  is the last thing the request issues (no tool is invoked after it, whatever its answer
  asks for), its body has no tool specs, and the request ends with its outcome: status 500
  with the message of its error, the history being the messages it carried; or status 200
  with the content of its message, absent or not, as the \<^verbatim>\<open>response\<close> field, the message
  being pushed last after the messages it carried.
\<close>

theorem at_most_two_completions:
  fixes e :: "'j env"
  assumes "chat e req s = (resp, s')"
  shows "\<exists>evs. trace s' = trace s @ evs \<and> length (filter is_completion evs) \<le> 2
           \<and> (length (filter is_completion evs) = 2 \<longrightarrow>
                (\<exists>c b tr. evs = tr @ [Completion c b]
                   \<and> cb_tools b = None
                   \<and> ((\<exists>err. completion_message e (trace s @ tr) c b = Inl err
                          \<and> resp = \<lparr>status = 500, body = ErrorPayload (err_message err)\<rparr>
                          \<and> messages s' = cb_messages b)
                      \<or> (\<exists>final sp. completion_message e (trace s @ tr) c b = Inr final
                          \<and> resp = \<lparr>status = 200, body = ChatPayload (content final) sp (cb_model b)\<rparr>
                          \<and> messages s' = cb_messages b @ [final]))))"
    (is "\<exists>evs. ?P evs")
proof -
  have none: "?P evs" if "trace s' = trace s @ evs" "list_all is_setup evs" for evs
    using that by (simp add: filter_completion_setup)
  have from_turn: "\<exists>evs. ?P evs"
    if t: "turn e c sp sm p s0 = (resp, s')" and s0: "trace s0 = trace s @ evs0"
      and evs0: "list_all is_setup evs0" for c sp sm p s0 evs0
  proof -
    from turn_trace_exact[OF t] obtain evs where
      tr: "trace s' = trace s0 @ evs" and le: "length (filter is_completion evs) \<le> 2"
      and two: "length (filter is_completion evs) = 2 \<longrightarrow>
                (\<exists>b tr. evs = tr @ [Completion c b]
                   \<and> cb_tools b = None \<and> cb_model b = sm
                   \<and> ((\<exists>err. completion_message e (trace s0 @ tr) c b = Inl err
                          \<and> resp = \<lparr>status = 500, body = ErrorPayload (err_message err)\<rparr>
                          \<and> messages s' = cb_messages b)
                      \<or> (\<exists>final. completion_message e (trace s0 @ tr) c b = Inr final
                          \<and> resp = \<lparr>status = 200, body = ChatPayload (content final) sp sm\<rparr>
                          \<and> messages s' = cb_messages b @ [final])))"
      by blast
    from evs0 have f: "filter is_completion (evs0 @ evs) = filter is_completion evs"
      by (simp add: filter_completion_setup)
    have "?P (evs0 @ evs)"
    proof (intro conjI impI)
      from tr s0 show "trace s' = trace s @ evs0 @ evs" by simp
      from le f show "length (filter is_completion (evs0 @ evs)) \<le> 2" by simp
    next
      assume "length (filter is_completion (evs0 @ evs)) = 2"
      with f two obtain b tr where x: "evs = tr @ [Completion c b]" "cb_tools b = None" "cb_model b = sm"
        and y: "(\<exists>err. completion_message e (trace s0 @ tr) c b = Inl err
                          \<and> resp = \<lparr>status = 500, body = ErrorPayload (err_message err)\<rparr>
                          \<and> messages s' = cb_messages b)
                      \<or> (\<exists>final. completion_message e (trace s0 @ tr) c b = Inr final
                          \<and> resp = \<lparr>status = 200, body = ChatPayload (content final) sp sm\<rparr>
                          \<and> messages s' = cb_messages b @ [final])"
        by auto
      from y s0 x(3) have y': "(\<exists>err. completion_message e (trace s @ evs0 @ tr) c b = Inl err
                          \<and> resp = \<lparr>status = 500, body = ErrorPayload (err_message err)\<rparr>
                          \<and> messages s' = cb_messages b)
                      \<or> (\<exists>final sp. completion_message e (trace s @ evs0 @ tr) c b = Inr final
                          \<and> resp = \<lparr>status = 200, body = ChatPayload (content final) sp (cb_model b)\<rparr>
                          \<and> messages s' = cb_messages b @ [final])"
        by auto
      show "\<exists>c b tr. evs0 @ evs = tr @ [Completion c b]
                   \<and> cb_tools b = None
                   \<and> ((\<exists>err. completion_message e (trace s @ tr) c b = Inl err
                          \<and> resp = \<lparr>status = 500, body = ErrorPayload (err_message err)\<rparr>
                          \<and> messages s' = cb_messages b)
                      \<or> (\<exists>final sp. completion_message e (trace s @ tr) c b = Inr final
                          \<and> resp = \<lparr>status = 200, body = ChatPayload (content final) sp (cb_model b)\<rparr>
                          \<and> messages s' = cb_messages b @ [final]))"
        apply (rule exI[of _ c], rule exI[of _ b], rule exI[of _ "evs0 @ tr"])
        using x y' by simp
    qed
    then show ?thesis ..
  qed
  from chat_cases[OF assms] consider
    (a) "s' = s"
    | (b) evs0 s0 where "trace s0 = trace s @ evs0" "list_all is_setup evs0" "s' = s0"
    | (c) evs0 s0 p c sp sm where "trace s0 = trace s @ evs0" "list_all is_setup evs0"
        "turn e c sp sm p s0 = (resp, s')"
    | (d) p c sp sm where "turn e c sp sm p s = (resp, s')"
    by blast
  then show ?thesis
  proof cases
    case a
    then have "?P []" by simp
    then show ?thesis ..
  next
    case b
    then have "?P evs0" by (intro none) simp_all
    then show ?thesis ..
  next
    case c
    from from_turn[OF c(3) c(1) c(2)] show ?thesis .
  next
    case d
    from from_turn[OF d, of "[]"] show ?thesis by simp
  qed
qed

text \<open>The first turn of \<open>insistent_session\<close>: the answer of the follow-up completion asks
  for another tool and has no content; the tool is not invoked and the response carries
  no content.\<close>

theorem at_most_two_completions_witness:
  "(\<exists>evs. trace (snd (chat insistent_session hi (listen insistent_session)))
            = trace (listen insistent_session) @ evs
        \<and> length (filter is_completion evs) = 2
        \<and> (\<exists>c b tr. evs = tr @ [Completion c b]
              \<and> cb_tools b = None
              \<and> ((\<exists>err. completion_message insistent_session (trace (listen insistent_session) @ tr) c b
                            = Inl err
                     \<and> fst (chat insistent_session hi (listen insistent_session))
                         = \<lparr>status = 500, body = ErrorPayload (err_message err)\<rparr>
                     \<and> messages (snd (chat insistent_session hi (listen insistent_session)))
                         = cb_messages b)
                 \<or> (\<exists>final sp. completion_message insistent_session (trace (listen insistent_session) @ tr) c b
                            = Inr final
                     \<and> fst (chat insistent_session hi (listen insistent_session))
                         = \<lparr>status = 200, body = ChatPayload (content final) sp (cb_model b)\<rparr>
                     \<and> messages (snd (chat insistent_session hi (listen insistent_session)))
                         = cb_messages b @ [final]))))
   \<and> fst (chat insistent_session hi (listen insistent_session))
       = \<lparr>status = 200, body = ChatPayload None ''groq'' ''llama-3.1-8b-instant''\<rparr>
   \<and> map call_name (filter is_call (trace (snd (chat insistent_session hi (listen insistent_session)))))
       = [''get-users'']
   \<and> map role (messages (snd (chat insistent_session hi (listen insistent_session))))
       = [System, User, Assistant, Tool, Assistant]
   \<and> map tool_calls (messages (snd (chat insistent_session hi (listen insistent_session))))
       = [None, None, Some [lookup_call], None, Some [second_call]]"
proof -
  have n: "length (filter is_completion (drop (length (trace (listen insistent_session)))
      (trace (snd (chat insistent_session hi (listen insistent_session)))))) = 2"
    by code_simp
  have "chat insistent_session hi (listen insistent_session)
      = (fst (chat insistent_session hi (listen insistent_session)),
         snd (chat insistent_session hi (listen insistent_session)))"
    by simp
  from at_most_two_completions[OF this] obtain evs where
    tr: "trace (snd (chat insistent_session hi (listen insistent_session)))
          = trace (listen insistent_session) @ evs"
    and two: "length (filter is_completion evs) = 2 \<longrightarrow>
        (\<exists>c b tr. evs = tr @ [Completion c b]
              \<and> cb_tools b = None
              \<and> ((\<exists>err. completion_message insistent_session (trace (listen insistent_session) @ tr) c b
                            = Inl err
                     \<and> fst (chat insistent_session hi (listen insistent_session))
                         = \<lparr>status = 500, body = ErrorPayload (err_message err)\<rparr>
                     \<and> messages (snd (chat insistent_session hi (listen insistent_session)))
                         = cb_messages b)
                 \<or> (\<exists>final sp. completion_message insistent_session (trace (listen insistent_session) @ tr) c b
                            = Inr final
                     \<and> fst (chat insistent_session hi (listen insistent_session))
                         = \<lparr>status = 200, body = ChatPayload (content final) sp (cb_model b)\<rparr>
                     \<and> messages (snd (chat insistent_session hi (listen insistent_session)))
                         = cb_messages b @ [final])))"
    by blast
  from n tr have "length (filter is_completion evs) = 2" by simp
  with tr two have a: "\<exists>evs. trace (snd (chat insistent_session hi (listen insistent_session)))
            = trace (listen insistent_session) @ evs
        \<and> length (filter is_completion evs) = 2
        \<and> (\<exists>c b tr. evs = tr @ [Completion c b]
              \<and> cb_tools b = None
              \<and> ((\<exists>err. completion_message insistent_session (trace (listen insistent_session) @ tr) c b
                            = Inl err
                     \<and> fst (chat insistent_session hi (listen insistent_session))
                         = \<lparr>status = 500, body = ErrorPayload (err_message err)\<rparr>
                     \<and> messages (snd (chat insistent_session hi (listen insistent_session)))
                         = cb_messages b)
                 \<or> (\<exists>final sp. completion_message insistent_session (trace (listen insistent_session) @ tr) c b
                            = Inr final
                     \<and> fst (chat insistent_session hi (listen insistent_session))
                         = \<lparr>status = 200, body = ChatPayload (content final) sp (cb_model b)\<rparr>
                     \<and> messages (snd (chat insistent_session hi (listen insistent_session)))
                         = cb_messages b @ [final])))"
    by blast
  have b: "fst (chat insistent_session hi (listen insistent_session))
       = \<lparr>status = 200, body = ChatPayload None ''groq'' ''llama-3.1-8b-instant''\<rparr>"
    by code_simp
  have c: "map call_name (filter is_call (trace (snd (chat insistent_session hi (listen insistent_session)))))
       = [''get-users'']"
    by code_simp
  have d: "map role (messages (snd (chat insistent_session hi (listen insistent_session))))
       = [System, User, Assistant, Tool, Assistant]"
    by code_simp
  have f: "map tool_calls (messages (snd (chat insistent_session hi (listen insistent_session))))
       = [None, None, Some [lookup_call], None, Some [second_call]]"
    by code_simp
  from a b c d f show ?thesis by (intro conjI)
qed

text \<open>
  C2 (as amended). In every session, whatever the requests handled so far. A request
  without a prompt or without an available provider leaves the history as it is. A request
  with a prompt and an available provider pushes the user message and, when that makes the
  history longer than 10, keeps the first message and the last 9 (the last 8 of the old
  history and the user message); the messages pushed later in the turn come after this
  window with no further eviction: when the completion answers, its message follows the
  window, and it is the whole rest when it has no \<^verbatim>\<open>tool_calls\<close> field, so that the history
  then has one message more than the window. The history always starts with the system
  message, and it is the only system message when the provider answers with assistant
  messages.
\<close>

theorem history_after_request:
  assumes "s = run e (listen e) reqs" "chat e req s = (resp, s')"
  shows "hd (messages s') = system_message
       \<and> (assistant_only e \<longrightarrow> filter (\<lambda>m. role m = System) (messages s') = [system_message])
       \<and> (prompt req = None \<or> prompt req = Some [] \<or> (\<exists>msg. select_provider s req = Inl msg)
            \<longrightarrow> messages s' = messages s)
       \<and> (\<forall>p c sp sm. prompt req = Some p \<and> p \<noteq> [] \<and> select_provider s req = Inr (c, sp, sm) \<longrightarrow>
            (\<exists>ext. messages s' =
                    (if 10 \<le> length (messages s)
                     then system_message # drop (length (messages s) - 8) (messages s)
                            @ [\<lparr>role = User, content = Some p, tool_calls = None, tool_call_id = None\<rparr>]
                     else messages s
                            @ [\<lparr>role = User, content = Some p, tool_calls = None, tool_call_id = None\<rparr>])
                    @ ext
                \<and> (\<forall>m. completion_message e (trace s) c (first_request s sm p) = Inr m \<longrightarrow>
                      (\<exists>ext'. ext = m # ext') \<and> (tool_calls m = None \<longrightarrow> ext = [m]))))"
proof (intro conjI impI allI)
  have ne: "messages (listen e) \<noteq> []" "hd (messages (listen e)) = system_message"
    using listen_state[of e] by simp_all
  from run_hd[OF ne(1), where reqs = reqs] ne(2) assms(1)
  have s: "messages s \<noteq> []" "hd (messages s) = system_message" by simp_all
  from session_state[of e reqs] assms(1) have cl: "client s" by simp
  from chat_hd[OF s(1) assms(2)] s(2) show "hd (messages s') = system_message" by simp
  {
    assume "prompt req = None \<or> prompt req = Some [] \<or> (\<exists>msg. select_provider s req = Inl msg)"
    then consider "prompt req = None" | "prompt req = Some []"
      | p msg where "prompt req = Some p" "p \<noteq> []" "select_provider s req = Inl msg"
      by (cases "prompt req") auto
    then have "chat e req s = (fst (chat e req s), s)"
    proof cases
      case 1
      then show ?thesis by (simp add: chat_def)
    next
      case 2
      then show ?thesis by (simp add: chat_def)
    next
      case 3
      with chat_ready[OF cl 3(1,2), of e] show ?thesis by simp
    qed
    with assms(2) show "messages s' = messages s" by simp
  }
  {
    fix p c sp sm
    assume a: "prompt req = Some p \<and> p \<noteq> [] \<and> select_provider s req = Inr (c, sp, sm)"
    with chat_turn[OF cl, of req p c sp sm e] assms(2)
    have t: "turn e c sp sm p s = (resp, s')" by simp
    from turn_pushes[OF t] obtain ext where
      x: "messages s' = limit_history (messages s @ [user_message p]) @ ext"
      and y: "\<forall>m. completion_message e (trace s) c (first_request s sm p) = Inr m \<longrightarrow>
                 (\<exists>ext'. ext = m # ext') \<and> (tool_calls m = None \<longrightarrow> ext = [m])"
      by blast
    from x limit_history_push[OF s(1), of "user_message p"] s(2)
    have "messages s' =
                    (if 10 \<le> length (messages s)
                     then system_message # drop (length (messages s) - 8) (messages s)
                            @ [\<lparr>role = User, content = Some p, tool_calls = None, tool_call_id = None\<rparr>]
                     else messages s
                            @ [\<lparr>role = User, content = Some p, tool_calls = None, tool_call_id = None\<rparr>])
                    @ ext"
      by (simp add: user_message_def)
    with y show "\<exists>ext. messages s' =
                    (if 10 \<le> length (messages s)
                     then system_message # drop (length (messages s) - 8) (messages s)
                            @ [\<lparr>role = User, content = Some p, tool_calls = None, tool_call_id = None\<rparr>]
                     else messages s
                            @ [\<lparr>role = User, content = Some p, tool_calls = None, tool_call_id = None\<rparr>])
                    @ ext
                \<and> (\<forall>m. completion_message e (trace s) c (first_request s sm p) = Inr m \<longrightarrow>
                      (\<exists>ext'. ext = m # ext') \<and> (tool_calls m = None \<longrightarrow> ext = [m]))"
      by blast
  }
next
  assume a: "assistant_only e"
  from run_rooted[OF a rooted_listen, where reqs = reqs] assms(1) have "rooted (messages s)" by simp
  from chat_rooted[OF a this assms(2)] have "rooted (messages s')" .
  then show "filter (\<lambda>m. role m = System) (messages s') = [system_message]"
    by (rule rooted_filter)
qed

text \<open>The sixth request of \<open>quiet_session\<close>, each request with a prompt of its own: the
  history has 11 messages when it arrives; the first prompt and the first answer are
  dropped, and the answer is pushed after the 10 messages of the window.\<close>

theorem history_after_request_witness:
  "assistant_only quiet_session
   \<and> hd (messages (snd (chat quiet_session (ask ''6'')
          (run quiet_session (listen quiet_session)
             [ask ''1'', ask ''2'', ask ''3'', ask ''4'', ask ''5''])))) = system_message
   \<and> filter (\<lambda>m. role m = System) (messages (snd (chat quiet_session (ask ''6'')
          (run quiet_session (listen quiet_session)
             [ask ''1'', ask ''2'', ask ''3'', ask ''4'', ask ''5''])))) = [system_message]
   \<and> messages (snd (chat quiet_session (ask ''6'')
          (run quiet_session (listen quiet_session)
             [ask ''1'', ask ''2'', ask ''3'', ask ''4'', ask ''5''])))
       = system_message
         # drop 3 (messages (run quiet_session (listen quiet_session)
                     [ask ''1'', ask ''2'', ask ''3'', ask ''4'', ask ''5'']))
         @ [\<lparr>role = User, content = Some ''6'', tool_calls = None, tool_call_id = None\<rparr>]
         @ [plain_answer]
   \<and> map content (messages (run quiet_session (listen quiet_session)
          [ask ''1'', ask ''2'', ask ''3'', ask ''4'', ask ''5'']))
       = [content system_message, Some ''1'', Some ''Hello.'', Some ''2'', Some ''Hello.'',
          Some ''3'', Some ''Hello.'', Some ''4'', Some ''Hello.'', Some ''5'', Some ''Hello.'']
   \<and> map content (messages (snd (chat quiet_session (ask ''6'')
          (run quiet_session (listen quiet_session)
             [ask ''1'', ask ''2'', ask ''3'', ask ''4'', ask ''5'']))))
       = [content system_message, Some ''2'', Some ''Hello.'', Some ''3'', Some ''Hello.'',
          Some ''4'', Some ''Hello.'', Some ''5'', Some ''Hello.'', Some ''6'', Some ''Hello.'']"
proof -
  let ?s5 = "run quiet_session (listen quiet_session)
             [ask ''1'', ask ''2'', ask ''3'', ask ''4'', ask ''5'']"
  let ?s6 = "snd (chat quiet_session (ask ''6'') ?s5)"
  have a: "assistant_only quiet_session"
    unfolding quiet_session_def by (rule assistant_only_scripted) (simp add: plain_answer_def)
  have l: "length (messages ?s5) = 11" by code_simp
  have p: "prompt (ask ''6'') = Some ''6'' \<and> ''6'' \<noteq> []
      \<and> select_provider ?s5 (ask ''6'') = Inr (Groq, ''groq'', ''llama-3.1-8b-instant'')"
    by code_simp
  have m: "completion_message quiet_session (trace ?s5) Groq
      (first_request ?s5 ''llama-3.1-8b-instant'' ''6'') = Inr plain_answer"
    by code_simp
  have n: "tool_calls plain_answer = None" by (simp add: plain_answer_def)
  have c: "chat quiet_session (ask ''6'') ?s5 = (fst (chat quiet_session (ask ''6'') ?s5), ?s6)"
    by simp
  note h = history_after_request[OF refl c]
  from h have 1: "hd (messages ?s6) = system_message" by (simp del: run.simps)
  from h a have 2: "filter (\<lambda>m. role m = System) (messages ?s6) = [system_message]"
    by (simp del: run.simps)
  from h p obtain ext where
    x: "messages ?s6 =
          (if 10 \<le> length (messages ?s5)
           then system_message # drop (length (messages ?s5) - 8) (messages ?s5)
                  @ [\<lparr>role = User, content = Some ''6'', tool_calls = None, tool_call_id = None\<rparr>]
           else messages ?s5
                  @ [\<lparr>role = User, content = Some ''6'', tool_calls = None, tool_call_id = None\<rparr>])
          @ ext"
    and y: "\<forall>m. completion_message quiet_session (trace ?s5) Groq
                 (first_request ?s5 ''llama-3.1-8b-instant'' ''6'') = Inr m \<longrightarrow>
                      (\<exists>ext'. ext = m # ext') \<and> (tool_calls m = None \<longrightarrow> ext = [m])"
    by blast
  from y m n have "ext = [plain_answer]" by blast
  with x l have 3: "messages ?s6 = system_message # drop 3 (messages ?s5)
         @ [\<lparr>role = User, content = Some ''6'', tool_calls = None, tool_call_id = None\<rparr>]
         @ [plain_answer]"
    by (simp del: run.simps)
  have 4: "map content (messages ?s5)
       = [content system_message, Some ''1'', Some ''Hello.'', Some ''2'', Some ''Hello.'',
          Some ''3'', Some ''Hello.'', Some ''4'', Some ''Hello.'', Some ''5'', Some ''Hello.'']"
    by code_simp
  have 5: "map content (messages ?s6)
       = [content system_message, Some ''2'', Some ''Hello.'', Some ''3'', Some ''Hello.'',
          Some ''4'', Some ''Hello.'', Some ''5'', Some ''Hello.'', Some ''6'', Some ''Hello.'']"
    by code_simp
  from a 1 2 3 4 5 show ?thesis by (intro conjI)
qed

text \<open>
  C2 as stated fails for the push of an assistant message: the fifth request of
  \<open>quiet_session\<close> finds 9 messages, pushes the user message (10, no eviction) and the
  answer, and leaves 11 messages.
\<close>

theorem assistant_append_exceeds:
  "length (messages (run quiet_session (listen quiet_session) [hi, hi, hi, hi])) = 9
   \<and> messages (run quiet_session (listen quiet_session) [hi, hi, hi, hi, hi])
       = messages (run quiet_session (listen quiet_session) [hi, hi, hi, hi])
           @ [user_message ''hi'', plain_answer]
   \<and> length (messages (run quiet_session (listen quiet_session) [hi, hi, hi, hi, hi])) = 11"
  by code_simp






text \<open>
  C10 (as amended). For every user turn whose assistant message carries tool calls, a call
  whose type is not \<^verbatim>\<open>function\<close> is passed over: the invocations issued and the tool-role
  messages pushed follow the calls of type \<^verbatim>\<open>function\<close> only, in their order (the k-th
  invocation names the tool of the k-th such call, the k-th message has its id and the
  content that invocation returned), and such a call never ends the turn: the loop ends
  either with all calls of type \<^verbatim>\<open>function\<close> answered, and then the follow-up completion
  is requested, or with the error raised by the arguments or the invocation of the next
  call of type \<^verbatim>\<open>function\<close>. The number of pushed tool-role messages equals the number
  of calls of type \<^verbatim>\<open>function\<close> when the arguments of all of them decode and the endpoint
  answers every invocation.
\<close>

theorem only_function_calls_dispatched:
  assumes "client s" "prompt req = Some p" "p \<noteq> []"
      and "select_provider s req = Inr (c, sp, sm)"
      and "completion_message e (trace s) c (first_request s sm p) = Inr m"
      and "tool_calls m = Some tcs"
      and "chat e req s = (resp, s')"
  shows "\<exists>tms evs extra rest.
           messages s' = limit_history (messages s
                 @ [\<lparr>role = User, content = Some p, tool_calls = None, tool_call_id = None\<rparr>])
               @ m # tms @ rest
         \<and> length rest \<le> 1
         \<and> trace s' = trace s @ [Completion c (first_request s sm p)] @ evs @ extra
         \<and> length evs = length tms
         \<and> answers e (trace s @ [Completion c (first_request s sm p)]) (filter is_function tcs) tms evs
         \<and> ((length tms = length (filter is_function tcs) \<and> (\<exists>b. extra = [Completion c b]))
            \<or> (length tms < length (filter is_function tcs) \<and> rest = []
                \<and> (\<exists>err. raises e (trace s @ [Completion c (first_request s sm p)] @ evs)
                             (filter is_function tcs ! length tms) extra err
                       \<and> resp = \<lparr>status = 500, body = ErrorPayload (err_message err)\<rparr>)))
         \<and> ((\<forall>tc \<in> set tcs. is_function tc \<longrightarrow> (\<exists>a. json_parse e (fn_arguments tc) = Inr a))
              \<and> (\<forall>tr n a. \<exists>res. callTool e tr n a = Inr res)
            \<longrightarrow> length tms = length (filter is_function tcs))"
proof -
  let ?u = "\<lparr>role = User, content = Some p, tool_calls = None, tool_call_id = None\<rparr>"
  let ?W = "limit_history (messages s @ [?u])"
  let ?T = "trace s @ [Completion c (first_request s sm p)]"
  let ?fs = "filter is_function tcs"
  from chat_calls[OF assms] obtain tms evs where
    len: "length evs = length tms" and ans: "answers e ?T ?fs tms evs"
    and cases: "(\<exists>err extra. length tms < length ?fs
                 \<and> raises e (trace s @ [Completion c (first_request s sm p)] @ evs)
                      (?fs ! length tms) extra err
                 \<and> resp = \<lparr>status = 500, body = ErrorPayload (err_message err)\<rparr>
                 \<and> messages s' = ?W @ m # tms
                 \<and> trace s' = trace s @ [Completion c (first_request s sm p)] @ evs @ extra)
            \<or> (length tms = length ?fs
                \<and> trace s' = trace s @ [Completion c (first_request s sm p)] @ evs
                     @ [Completion c \<lparr>cb_model = sm, cb_messages = ?W @ m # tms, cb_tools = None\<rparr>]
                \<and> ((\<exists>err. completion_message e (trace s @ [Completion c (first_request s sm p)] @ evs) c
                             \<lparr>cb_model = sm, cb_messages = ?W @ m # tms, cb_tools = None\<rparr> = Inl err
                       \<and> resp = \<lparr>status = 500, body = ErrorPayload (err_message err)\<rparr>
                       \<and> messages s' = ?W @ m # tms)
                   \<or> (\<exists>final. completion_message e (trace s @ [Completion c (first_request s sm p)] @ evs) c
                             \<lparr>cb_model = sm, cb_messages = ?W @ m # tms, cb_tools = None\<rparr> = Inr final
                       \<and> resp = \<lparr>status = 200, body = ChatPayload (content final) sp sm\<rparr>
                       \<and> messages s' = ?W @ m # tms @ [final])))"
    by blast
  have count: "(\<forall>tc \<in> set tcs. is_function tc \<longrightarrow> (\<exists>a. json_parse e (fn_arguments tc) = Inr a))
              \<and> (\<forall>tr n a. \<exists>res. callTool e tr n a = Inr res)
            \<longrightarrow> length tms = length ?fs"
  proof
    assume h: "(\<forall>tc \<in> set tcs. is_function tc \<longrightarrow> (\<exists>a. json_parse e (fn_arguments tc) = Inr a))
              \<and> (\<forall>tr n a. \<exists>res. callTool e tr n a = Inr res)"
    from cases raises_excluded[OF h[THEN conjunct1] h[THEN conjunct2]]
    show "length tms = length ?fs" by blast
  qed
  have shape: "\<exists>extra rest.
           messages s' = ?W @ m # tms @ rest
         \<and> length rest \<le> 1
         \<and> trace s' = trace s @ [Completion c (first_request s sm p)] @ evs @ extra
         \<and> ((length tms = length ?fs \<and> (\<exists>b. extra = [Completion c b]))
            \<or> (length tms < length ?fs \<and> rest = []
                \<and> (\<exists>err. raises e (trace s @ [Completion c (first_request s sm p)] @ evs)
                             (?fs ! length tms) extra err
                       \<and> resp = \<lparr>status = 500, body = ErrorPayload (err_message err)\<rparr>)))"
    using cases
  proof (elim disjE exE conjE)
    fix err extra
    assume x: "length tms < length ?fs"
      "raises e (trace s @ [Completion c (first_request s sm p)] @ evs) (?fs ! length tms) extra err"
      "resp = \<lparr>status = 500, body = ErrorPayload (err_message err)\<rparr>"
      "messages s' = ?W @ m # tms"
      "trace s' = trace s @ [Completion c (first_request s sm p)] @ evs @ extra"
    from x(2,3) have "\<exists>err. raises e (trace s @ [Completion c (first_request s sm p)] @ evs)
                             (?fs ! length tms) extra err
                       \<and> resp = \<lparr>status = 500, body = ErrorPayload (err_message err)\<rparr>"
      by blast
    with x(1,4,5) show ?thesis
      by (intro exI[of _ extra] exI[of _ "[]"]) simp
  next
    fix err
    let ?b = "\<lparr>cb_model = sm, cb_messages = ?W @ m # tms, cb_tools = None\<rparr> :: 'a completion_body"
    assume x: "length tms = length ?fs"
      "trace s' = trace s @ [Completion c (first_request s sm p)] @ evs @ [Completion c ?b]"
      "messages s' = ?W @ m # tms"
    then show ?thesis
      by (intro exI[of _ "[Completion c ?b]"] exI[of _ "[]"]) simp
  next
    fix final
    let ?b = "\<lparr>cb_model = sm, cb_messages = ?W @ m # tms, cb_tools = None\<rparr> :: 'a completion_body"
    assume x: "length tms = length ?fs"
      "trace s' = trace s @ [Completion c (first_request s sm p)] @ evs @ [Completion c ?b]"
      "messages s' = ?W @ m # tms @ [final]"
    then show ?thesis
      by (intro exI[of _ "[Completion c ?b]"] exI[of _ "[final]"]) simp
  qed
  then obtain extra rest where
    "messages s' = ?W @ m # tms @ rest" "length rest \<le> 1"
    "trace s' = trace s @ [Completion c (first_request s sm p)] @ evs @ extra"
    "(length tms = length ?fs \<and> (\<exists>b. extra = [Completion c b]))
            \<or> (length tms < length ?fs \<and> rest = []
                \<and> (\<exists>err. raises e (trace s @ [Completion c (first_request s sm p)] @ evs)
                             (?fs ! length tms) extra err
                       \<and> resp = \<lparr>status = 500, body = ErrorPayload (err_message err)\<rparr>))"
    by blast
  with len ans count show ?thesis
    apply -
    apply (rule exI[of _ tms], rule exI[of _ evs], rule exI[of _ extra], rule exI[of _ rest])
    apply (intro conjI)
          apply assumption+
    done
qed

text \<open>The first turn of \<open>skipping_session\<close>: a call of type \<^verbatim>\<open>custom\<close>, then a call of type
  \<^verbatim>\<open>function\<close>. The loop goes on after the first: the second is invoked and answered, and
  the turn returns the answer of the follow-up completion.\<close>

theorem only_function_calls_dispatched_witness:
  "(\<exists>tms evs extra rest.
           messages (snd (chat skipping_session hi (listen skipping_session)))
             = limit_history (messages (listen skipping_session)
                 @ [\<lparr>role = User, content = Some ''hi'', tool_calls = None, tool_call_id = None\<rparr>])
               @ asking [custom_call, lookup_call] # tms @ rest
         \<and> length rest \<le> 1
         \<and> trace (snd (chat skipping_session hi (listen skipping_session)))
             = trace (listen skipping_session)
               @ [Completion Groq (first_request (listen skipping_session) ''llama-3.1-8b-instant'' ''hi'')]
               @ evs @ extra
         \<and> length evs = length tms
         \<and> answers skipping_session
              (trace (listen skipping_session)
               @ [Completion Groq (first_request (listen skipping_session) ''llama-3.1-8b-instant'' ''hi'')])
              [lookup_call] tms evs
         \<and> length tms = 1
         \<and> (\<exists>b. extra = [Completion Groq b]))
   \<and> messages (snd (chat skipping_session hi (listen skipping_session)))
       = [system_message,
          \<lparr>role = User, content = Some ''hi'', tool_calls = None, tool_call_id = None\<rparr>,
          asking [custom_call, lookup_call],
          \<lparr>role = Tool, content = Some ''{total: 2, count: 2}'', tool_calls = None,
            tool_call_id = Some ''call_1''\<rparr>,
          plain_answer]
   \<and> filter is_call (trace (snd (chat skipping_session hi (listen skipping_session))))
       = [CallTool ''get-users'' ''{}'']
   \<and> fst (chat skipping_session hi (listen skipping_session))
       = \<lparr>status = 200, body = ChatPayload (Some ''Hello.'') ''groq'' ''llama-3.1-8b-instant''\<rparr>"
proof -
  have 1: "client (listen skipping_session)" by code_simp
  have 2: "prompt hi = Some ''hi''" "''hi'' \<noteq> []" by (simp_all add: hi_def)
  have 3: "select_provider (listen skipping_session) hi = Inr (Groq, ''groq'', ''llama-3.1-8b-instant'')"
    by code_simp
  have 4: "completion_message skipping_session (trace (listen skipping_session)) Groq
      (first_request (listen skipping_session) ''llama-3.1-8b-instant'' ''hi'')
        = Inr (asking [custom_call, lookup_call])"
    by code_simp
  have 5: "tool_calls (asking [custom_call, lookup_call]) = Some [custom_call, lookup_call]"
    by (simp add: asking_def)
  have 6: "chat skipping_session hi (listen skipping_session)
      = (fst (chat skipping_session hi (listen skipping_session)),
         snd (chat skipping_session hi (listen skipping_session)))"
    by simp
  have 7: "filter is_function [custom_call, lookup_call] = [lookup_call]" by code_simp
  have 8: "(\<forall>tc \<in> set [custom_call, lookup_call]. is_function tc
        \<longrightarrow> (\<exists>a. json_parse skipping_session (fn_arguments tc) = Inr a))
      \<and> (\<forall>tr n a. \<exists>res. callTool skipping_session tr n a = Inr res)"
    by (simp add: skipping_session_def session_def)
  from only_function_calls_dispatched[OF 1 2 3 4 5 6] obtain tms evs extra rest where
    x: "messages (snd (chat skipping_session hi (listen skipping_session)))
             = limit_history (messages (listen skipping_session)
                 @ [\<lparr>role = User, content = Some ''hi'', tool_calls = None, tool_call_id = None\<rparr>])
               @ asking [custom_call, lookup_call] # tms @ rest"
      "length rest \<le> 1"
      "trace (snd (chat skipping_session hi (listen skipping_session)))
             = trace (listen skipping_session)
               @ [Completion Groq (first_request (listen skipping_session) ''llama-3.1-8b-instant'' ''hi'')]
               @ evs @ extra"
      "length evs = length tms"
      "answers skipping_session
              (trace (listen skipping_session)
               @ [Completion Groq (first_request (listen skipping_session) ''llama-3.1-8b-instant'' ''hi'')])
              (filter is_function [custom_call, lookup_call]) tms evs"
    and y: "(length tms = length (filter is_function [custom_call, lookup_call])
              \<and> (\<exists>b. extra = [Completion Groq b]))
            \<or> (length tms < length (filter is_function [custom_call, lookup_call]) \<and> rest = []
                \<and> (\<exists>err. raises skipping_session
                             (trace (listen skipping_session)
                              @ [Completion Groq (first_request (listen skipping_session) ''llama-3.1-8b-instant'' ''hi'')]
                              @ evs)
                             (filter is_function [custom_call, lookup_call] ! length tms) extra err
                       \<and> fst (chat skipping_session hi (listen skipping_session))
                           = \<lparr>status = 500, body = ErrorPayload (err_message err)\<rparr>))"
    and z: "(\<forall>tc \<in> set [custom_call, lookup_call]. is_function tc
                \<longrightarrow> (\<exists>a. json_parse skipping_session (fn_arguments tc) = Inr a))
              \<and> (\<forall>tr n a. \<exists>res. callTool skipping_session tr n a = Inr res)
            \<longrightarrow> length tms = length (filter is_function [custom_call, lookup_call])"
    by blast
  from z 8 7 have l: "length tms = 1" by simp
  with y 7 have f: "\<exists>b. extra = [Completion Groq b]" by auto
  from x 7 l f have a: "\<exists>tms evs extra rest.
           messages (snd (chat skipping_session hi (listen skipping_session)))
             = limit_history (messages (listen skipping_session)
                 @ [\<lparr>role = User, content = Some ''hi'', tool_calls = None, tool_call_id = None\<rparr>])
               @ asking [custom_call, lookup_call] # tms @ rest
         \<and> length rest \<le> 1
         \<and> trace (snd (chat skipping_session hi (listen skipping_session)))
             = trace (listen skipping_session)
               @ [Completion Groq (first_request (listen skipping_session) ''llama-3.1-8b-instant'' ''hi'')]
               @ evs @ extra
         \<and> length evs = length tms
         \<and> answers skipping_session
              (trace (listen skipping_session)
               @ [Completion Groq (first_request (listen skipping_session) ''llama-3.1-8b-instant'' ''hi'')])
              [lookup_call] tms evs
         \<and> length tms = 1
         \<and> (\<exists>b. extra = [Completion Groq b])"
    by (intro exI[of _ tms] exI[of _ evs] exI[of _ extra] exI[of _ rest]) simp
  have b: "messages (snd (chat skipping_session hi (listen skipping_session)))
       = [system_message,
          \<lparr>role = User, content = Some ''hi'', tool_calls = None, tool_call_id = None\<rparr>,
          asking [custom_call, lookup_call],
          \<lparr>role = Tool, content = Some ''{total: 2, count: 2}'', tool_calls = None,
            tool_call_id = Some ''call_1''\<rparr>,
          plain_answer]"
    by code_simp
  have c: "filter is_call (trace (snd (chat skipping_session hi (listen skipping_session))))
       = [CallTool ''get-users'' ''{}'']"
    by code_simp
  have d: "fst (chat skipping_session hi (listen skipping_session))
       = \<lparr>status = 200, body = ChatPayload (Some ''Hello.'') ''groq'' ''llama-3.1-8b-instant''\<rparr>"
    by code_simp
  from a b c d show ?thesis by (intro conjI)
qed

text \<open>
  C10 as stated fails in its count: the assistant message of the first turn of
  \<open>trio_session\<close> carries a call of type \<^verbatim>\<open>custom\<close> and two calls of type \<^verbatim>\<open>function\<close>; the
  invocation of the second of these is rejected, and one tool-role message has been
  pushed.
\<close>

theorem fewer_tool_messages_than_function_calls:
  "map tool_calls (messages (snd (chat trio_session hi (listen trio_session))))
     = [None, None, Some [custom_call, lookup_call, second_call], None]
   \<and> length (filter is_function [custom_call, lookup_call, second_call]) = 2
   \<and> map role (messages (snd (chat trio_session hi (listen trio_session))))
     = [System, User, Assistant, Tool]
   \<and> map call_name (filter is_call (trace (snd (chat trio_session hi (listen trio_session)))))
     = [''get-users'', ''search-dataflows'']
   \<and> fst (chat trio_session hi (listen trio_session))
     = \<lparr>status = 500, body = ErrorPayload ''Connection closed''\<rparr>"
  by code_simp

text \<open>
  C5 (as amended). A tool whose backend call fails, or whose processing of the backend's
  answer raises, does not raise: \<^verbatim>\<open>get-users\<close> returns one text block with the diagnostic
  text, and \<^verbatim>\<open>isError: true\<close>. In a turn, whatever an invocation returns, with or without
  the error flag, the loop pushes the tool-role message with the id of the call and the
  serialised content of that result, and goes on with the next call; when the arguments
  of every call of type \<^verbatim>\<open>function\<close> decode and the endpoint answers every invocation, the
  follow-up completion is requested with these messages. When the arguments of a call do
  not decode or its invocation is rejected, the turn ends there with status 500 and the
  message of that error: no tool-role message is pushed for the call and no follow-up
  completion is requested.
\<close>

theorem tool_failure_in_band:
  assumes "client s" "prompt req = Some p" "p \<noteq> []"
      and "select_provider s req = Inr (c, sp, sm)"
      and "completion_message e (trace s) c (first_request s sm p) = Inr m"
      and "tool_calls m = Some tcs"
      and "chat e req s = (resp, s')"
  shows "isError (get_users (Inl err) payload)
       \<and> result_content (get_users (Inl err) payload)
           = [\<lparr>ci_type = ''text'',
               ci_text = ''Error fetching users: '' @ err_message err @ '' - ''
                          @ (case err_response_data err of None \<Rightarrow> [CHR 0x22, CHR 0x22] | Some d \<Rightarrow> d)\<rparr>]
       \<and> (payload u = Inl err \<longrightarrow>
             isError (get_users (Inr u) payload)
           \<and> result_content (get_users (Inr u) payload) = result_content (get_users (Inl err) payload))
       \<and> (\<exists>tms evs extra.
             length evs = length tms
           \<and> answers e (trace s @ [Completion c (first_request s sm p)]) (filter is_function tcs) tms evs
           \<and> trace s' = trace s @ [Completion c (first_request s sm p)] @ evs @ extra
           \<and> ((length tms = length (filter is_function tcs)
                 \<and> (\<exists>b. extra = [Completion c b] \<and> cb_tools b = None
                       \<and> cb_messages b = limit_history (messages s
                             @ [\<lparr>role = User, content = Some p, tool_calls = None, tool_call_id = None\<rparr>])
                           @ m # tms))
              \<or> (length tms < length (filter is_function tcs)
                  \<and> list_all (\<lambda>ev. \<not> is_completion ev) extra
                  \<and> messages s' = limit_history (messages s
                         @ [\<lparr>role = User, content = Some p, tool_calls = None, tool_call_id = None\<rparr>])
                       @ m # tms
                  \<and> (\<exists>err'. raises e (trace s @ [Completion c (first_request s sm p)] @ evs)
                               (filter is_function tcs ! length tms) extra err'
                         \<and> resp = \<lparr>status = 500, body = ErrorPayload (err_message err')\<rparr>)))
           \<and> ((\<forall>tc \<in> set tcs. is_function tc \<longrightarrow> (\<exists>a. json_parse e (fn_arguments tc) = Inr a))
                \<and> (\<forall>tr n a. \<exists>res. callTool e tr n a = Inr res)
              \<longrightarrow> length tms = length (filter is_function tcs)))"
proof (intro conjI impI)
  show "isError (get_users (Inl err) payload)"
    by (simp add: get_users_def text_result_def)
  show "result_content (get_users (Inl err) payload)
           = [\<lparr>ci_type = ''text'',
               ci_text = ''Error fetching users: '' @ err_message err @ '' - ''
                          @ (case err_response_data err of None \<Rightarrow> [CHR 0x22, CHR 0x22] | Some d \<Rightarrow> d)\<rparr>]"
    by (simp add: get_users_def text_result_def error_text_def)
  {
    assume "payload u = Inl err"
    then show "isError (get_users (Inr u) payload)"
      and "result_content (get_users (Inr u) payload) = result_content (get_users (Inl err) payload)"
      by (simp_all add: get_users_def text_result_def)
  }
  let ?u = "\<lparr>role = User, content = Some p, tool_calls = None, tool_call_id = None\<rparr>"
  let ?W = "limit_history (messages s @ [?u])"
  let ?T = "trace s @ [Completion c (first_request s sm p)]"
  let ?fs = "filter is_function tcs"
  from chat_calls[OF assms] obtain tms evs where
    len: "length evs = length tms" and ans: "answers e ?T ?fs tms evs"
    and cases: "(\<exists>err extra. length tms < length ?fs
                 \<and> raises e (trace s @ [Completion c (first_request s sm p)] @ evs)
                      (?fs ! length tms) extra err
                 \<and> resp = \<lparr>status = 500, body = ErrorPayload (err_message err)\<rparr>
                 \<and> messages s' = ?W @ m # tms
                 \<and> trace s' = trace s @ [Completion c (first_request s sm p)] @ evs @ extra)
            \<or> (length tms = length ?fs
                \<and> trace s' = trace s @ [Completion c (first_request s sm p)] @ evs
                     @ [Completion c \<lparr>cb_model = sm, cb_messages = ?W @ m # tms, cb_tools = None\<rparr>]
                \<and> ((\<exists>err. completion_message e (trace s @ [Completion c (first_request s sm p)] @ evs) c
                             \<lparr>cb_model = sm, cb_messages = ?W @ m # tms, cb_tools = None\<rparr> = Inl err
                       \<and> resp = \<lparr>status = 500, body = ErrorPayload (err_message err)\<rparr>
                       \<and> messages s' = ?W @ m # tms)
                   \<or> (\<exists>final. completion_message e (trace s @ [Completion c (first_request s sm p)] @ evs) c
                             \<lparr>cb_model = sm, cb_messages = ?W @ m # tms, cb_tools = None\<rparr> = Inr final
                       \<and> resp = \<lparr>status = 200, body = ChatPayload (content final) sp sm\<rparr>
                       \<and> messages s' = ?W @ m # tms @ [final])))"
    by blast
  have count: "(\<forall>tc \<in> set tcs. is_function tc \<longrightarrow> (\<exists>a. json_parse e (fn_arguments tc) = Inr a))
              \<and> (\<forall>tr n a. \<exists>res. callTool e tr n a = Inr res)
            \<longrightarrow> length tms = length ?fs"
  proof
    assume h: "(\<forall>tc \<in> set tcs. is_function tc \<longrightarrow> (\<exists>a. json_parse e (fn_arguments tc) = Inr a))
              \<and> (\<forall>tr n a. \<exists>res. callTool e tr n a = Inr res)"
    from cases raises_excluded[OF h[THEN conjunct1] h[THEN conjunct2]]
    show "length tms = length ?fs" by blast
  qed
  have shape: "\<exists>extra.
             trace s' = trace s @ [Completion c (first_request s sm p)] @ evs @ extra
           \<and> ((length tms = length ?fs
                 \<and> (\<exists>b. extra = [Completion c b] \<and> cb_tools b = None
                       \<and> cb_messages b = ?W @ m # tms))
              \<or> (length tms < length ?fs
                  \<and> list_all (\<lambda>ev. \<not> is_completion ev) extra
                  \<and> messages s' = ?W @ m # tms
                  \<and> (\<exists>err'. raises e (trace s @ [Completion c (first_request s sm p)] @ evs)
                               (?fs ! length tms) extra err'
                         \<and> resp = \<lparr>status = 500, body = ErrorPayload (err_message err')\<rparr>)))"
    using cases
  proof (elim disjE exE conjE)
    fix err' extra
    assume x: "length tms < length ?fs"
      "raises e (trace s @ [Completion c (first_request s sm p)] @ evs) (?fs ! length tms) extra err'"
      "resp = \<lparr>status = 500, body = ErrorPayload (err_message err')\<rparr>"
      "messages s' = ?W @ m # tms"
      "trace s' = trace s @ [Completion c (first_request s sm p)] @ evs @ extra"
    from x(2) have nc: "list_all (\<lambda>ev. \<not> is_completion ev) extra"
      by (auto simp: raises_def)
    from x(2,3) have "\<exists>err'. raises e (trace s @ [Completion c (first_request s sm p)] @ evs)
                               (?fs ! length tms) extra err'
                         \<and> resp = \<lparr>status = 500, body = ErrorPayload (err_message err')\<rparr>"
      by blast
    with x(1,4,5) nc show ?thesis
      by (intro exI[of _ extra]) simp
  next
    fix err'
    let ?b = "\<lparr>cb_model = sm, cb_messages = ?W @ m # tms, cb_tools = None\<rparr> :: 'a completion_body"
    assume x: "length tms = length ?fs"
      "trace s' = trace s @ [Completion c (first_request s sm p)] @ evs @ [Completion c ?b]"
    have "\<exists>b. [Completion c ?b] = [Completion c b] \<and> cb_tools b = None
                       \<and> cb_messages b = ?W @ m # tms"
      by (intro exI[of _ ?b]) simp
    with x show ?thesis
      by (intro exI[of _ "[Completion c ?b]"]) simp
  next
    fix final
    let ?b = "\<lparr>cb_model = sm, cb_messages = ?W @ m # tms, cb_tools = None\<rparr> :: 'a completion_body"
    assume x: "length tms = length ?fs"
      "trace s' = trace s @ [Completion c (first_request s sm p)] @ evs @ [Completion c ?b]"
    have "\<exists>b. [Completion c ?b] = [Completion c b] \<and> cb_tools b = None
                       \<and> cb_messages b = ?W @ m # tms"
      by (intro exI[of _ ?b]) simp
    with x show ?thesis
      by (intro exI[of _ "[Completion c ?b]"]) simp
  qed
  then obtain extra where
    "trace s' = trace s @ [Completion c (first_request s sm p)] @ evs @ extra"
    "(length tms = length ?fs
                 \<and> (\<exists>b. extra = [Completion c b] \<and> cb_tools b = None
                       \<and> cb_messages b = ?W @ m # tms))
              \<or> (length tms < length ?fs
                  \<and> list_all (\<lambda>ev. \<not> is_completion ev) extra
                  \<and> messages s' = ?W @ m # tms
                  \<and> (\<exists>err'. raises e (trace s @ [Completion c (first_request s sm p)] @ evs)
                               (?fs ! length tms) extra err'
                         \<and> resp = \<lparr>status = 500, body = ErrorPayload (err_message err')\<rparr>))"
    by blast
  with len ans count
  show "\<exists>tms evs extra.
             length evs = length tms
           \<and> answers e (trace s @ [Completion c (first_request s sm p)]) (filter is_function tcs) tms evs
           \<and> trace s' = trace s @ [Completion c (first_request s sm p)] @ evs @ extra
           \<and> ((length tms = length (filter is_function tcs)
                 \<and> (\<exists>b. extra = [Completion c b] \<and> cb_tools b = None
                       \<and> cb_messages b = limit_history (messages s
                             @ [\<lparr>role = User, content = Some p, tool_calls = None, tool_call_id = None\<rparr>])
                           @ m # tms))
              \<or> (length tms < length (filter is_function tcs)
                  \<and> list_all (\<lambda>ev. \<not> is_completion ev) extra
                  \<and> messages s' = limit_history (messages s
                         @ [\<lparr>role = User, content = Some p, tool_calls = None, tool_call_id = None\<rparr>])
                       @ m # tms
                  \<and> (\<exists>err'. raises e (trace s @ [Completion c (first_request s sm p)] @ evs)
                               (filter is_function tcs ! length tms) extra err'
                         \<and> resp = \<lparr>status = 500, body = ErrorPayload (err_message err')\<rparr>)))
           \<and> ((\<forall>tc \<in> set tcs. is_function tc \<longrightarrow> (\<exists>a. json_parse e (fn_arguments tc) = Inr a))
                \<and> (\<forall>tr n a. \<exists>res. callTool e tr n a = Inr res)
              \<longrightarrow> length tms = length (filter is_function tcs))"
    apply -
    apply (rule exI[of _ tms], rule exI[of _ evs], rule exI[of _ extra])
    apply (intro conjI)
        apply assumption+
    done
qed

text \<open>The first turn of \<open>relay_session\<close>: \<^verbatim>\<open>get-users\<close> answers with the error flag and the
  diagnostic text; its tool message is pushed, the second call is invoked and answered,
  and the turn returns the answer of the follow-up completion.\<close>

theorem tool_failure_in_band_witness:
  "isError (get_users (Inl unreachable :: js_error + string) (\<lambda>u. Inr u))
   \<and> result_content (get_users (Inl unreachable :: js_error + string) (\<lambda>u. Inr u))
       = [\<lparr>ci_type = ''text'',
           ci_text = ''Error fetching users: Connection closed - '' @ [CHR 0x22, CHR 0x22]\<rparr>]
   \<and> isError (get_users (Inr ''rows'' :: js_error + string) (\<lambda>u. Inl unreachable))
   \<and> (\<exists>tms evs extra.
         length evs = length tms
       \<and> answers relay_session
            (trace (listen relay_session)
             @ [Completion Groq (first_request (listen relay_session) ''llama-3.1-8b-instant'' ''hi'')])
            [lookup_call, second_call] tms evs
       \<and> trace (snd (chat relay_session hi (listen relay_session)))
           = trace (listen relay_session)
             @ [Completion Groq (first_request (listen relay_session) ''llama-3.1-8b-instant'' ''hi'')]
             @ evs @ extra
       \<and> length tms = 2
       \<and> (\<exists>b. extra = [Completion Groq b] \<and> cb_tools b = None
             \<and> cb_messages b = limit_history (messages (listen relay_session)
                   @ [\<lparr>role = User, content = Some ''hi'', tool_calls = None, tool_call_id = None\<rparr>])
                 @ asking [lookup_call, second_call] # tms))
   \<and> messages (snd (chat relay_session hi (listen relay_session)))
       = [system_message,
          \<lparr>role = User, content = Some ''hi'', tool_calls = None, tool_call_id = None\<rparr>,
          asking [lookup_call, second_call],
          \<lparr>role = Tool,
            content = Some (''Error fetching users: Connection closed - '' @ [CHR 0x22, CHR 0x22]),
            tool_calls = None, tool_call_id = Some ''call_1''\<rparr>,
          \<lparr>role = Tool, content = Some ''{total: 2, count: 2}'', tool_calls = None,
            tool_call_id = Some ''call_3''\<rparr>,
          plain_answer]
   \<and> fst (chat relay_session hi (listen relay_session))
       = \<lparr>status = 200, body = ChatPayload (Some ''Hello.'') ''groq'' ''llama-3.1-8b-instant''\<rparr>"
proof -
  have 1: "client (listen relay_session)" by code_simp
  have 2: "prompt hi = Some ''hi''" "''hi'' \<noteq> []" by (simp_all add: hi_def)
  have 3: "select_provider (listen relay_session) hi = Inr (Groq, ''groq'', ''llama-3.1-8b-instant'')"
    by code_simp
  have 4: "completion_message relay_session (trace (listen relay_session)) Groq
      (first_request (listen relay_session) ''llama-3.1-8b-instant'' ''hi'')
        = Inr (asking [lookup_call, second_call])"
    by code_simp
  have 5: "tool_calls (asking [lookup_call, second_call]) = Some [lookup_call, second_call]"
    by (simp add: asking_def)
  have 6: "chat relay_session hi (listen relay_session)
      = (fst (chat relay_session hi (listen relay_session)),
         snd (chat relay_session hi (listen relay_session)))"
    by simp
  have 7: "filter is_function [lookup_call, second_call] = [lookup_call, second_call]" by code_simp
  have 8: "(\<forall>tc \<in> set [lookup_call, second_call]. is_function tc
        \<longrightarrow> (\<exists>a. json_parse relay_session (fn_arguments tc) = Inr a))
      \<and> (\<forall>tr n a. \<exists>res. callTool relay_session tr n a = Inr res)"
    by (simp add: relay_session_def session_def)
  note t = tool_failure_in_band[OF 1 2 3 4 5 6, of unreachable "\<lambda>u. Inr u" "''rows''"]
  note t' = tool_failure_in_band[OF 1 2 3 4 5 6, of unreachable "\<lambda>u. Inl unreachable" "''rows''"]
  from t have a: "isError (get_users (Inl unreachable :: js_error + string) (\<lambda>u. Inr u))"
    by (rule conjunct1)
  from t have "result_content (get_users (Inl unreachable :: js_error + string) (\<lambda>u. Inr u))
       = [\<lparr>ci_type = ''text'',
           ci_text = ''Error fetching users: '' @ err_message unreachable @ '' - ''
              @ (case err_response_data unreachable of None \<Rightarrow> [CHR 0x22, CHR 0x22] | Some d \<Rightarrow> d)\<rparr>]"
    by blast
  then have b: "result_content (get_users (Inl unreachable :: js_error + string) (\<lambda>u. Inr u))
       = [\<lparr>ci_type = ''text'',
           ci_text = ''Error fetching users: Connection closed - '' @ [CHR 0x22, CHR 0x22]\<rparr>]"
    by (simp add: unreachable_def)
  from t' have c: "isError (get_users (Inr ''rows'' :: js_error + string) (\<lambda>u. Inl unreachable))"
    by blast
  from t obtain tms evs extra where
    x: "length evs = length tms"
      "answers relay_session
            (trace (listen relay_session)
             @ [Completion Groq (first_request (listen relay_session) ''llama-3.1-8b-instant'' ''hi'')])
            (filter is_function [lookup_call, second_call]) tms evs"
      "trace (snd (chat relay_session hi (listen relay_session)))
           = trace (listen relay_session)
             @ [Completion Groq (first_request (listen relay_session) ''llama-3.1-8b-instant'' ''hi'')]
             @ evs @ extra"
    and y: "(length tms = length (filter is_function [lookup_call, second_call])
                 \<and> (\<exists>b. extra = [Completion Groq b] \<and> cb_tools b = None
                       \<and> cb_messages b = limit_history (messages (listen relay_session)
                             @ [\<lparr>role = User, content = Some ''hi'', tool_calls = None, tool_call_id = None\<rparr>])
                           @ asking [lookup_call, second_call] # tms))
              \<or> (length tms < length (filter is_function [lookup_call, second_call])
                  \<and> list_all (\<lambda>ev. \<not> is_completion ev) extra
                  \<and> messages (snd (chat relay_session hi (listen relay_session)))
                      = limit_history (messages (listen relay_session)
                         @ [\<lparr>role = User, content = Some ''hi'', tool_calls = None, tool_call_id = None\<rparr>])
                       @ asking [lookup_call, second_call] # tms
                  \<and> (\<exists>err'. raises relay_session
                               (trace (listen relay_session)
                                @ [Completion Groq (first_request (listen relay_session) ''llama-3.1-8b-instant'' ''hi'')]
                                @ evs)
                               (filter is_function [lookup_call, second_call] ! length tms) extra err'
                         \<and> fst (chat relay_session hi (listen relay_session))
                             = \<lparr>status = 500, body = ErrorPayload (err_message err')\<rparr>))"
    and z: "(\<forall>tc \<in> set [lookup_call, second_call]. is_function tc
                  \<longrightarrow> (\<exists>a. json_parse relay_session (fn_arguments tc) = Inr a))
                \<and> (\<forall>tr n a. \<exists>res. callTool relay_session tr n a = Inr res)
              \<longrightarrow> length tms = length (filter is_function [lookup_call, second_call])"
    by blast
  from z 8 7 have l: "length tms = 2" by simp
  with y 7 have f: "\<exists>b. extra = [Completion Groq b] \<and> cb_tools b = None
                       \<and> cb_messages b = limit_history (messages (listen relay_session)
                             @ [\<lparr>role = User, content = Some ''hi'', tool_calls = None, tool_call_id = None\<rparr>])
                           @ asking [lookup_call, second_call] # tms"
    by auto
  from x 7 l f have d: "\<exists>tms evs extra.
         length evs = length tms
       \<and> answers relay_session
            (trace (listen relay_session)
             @ [Completion Groq (first_request (listen relay_session) ''llama-3.1-8b-instant'' ''hi'')])
            [lookup_call, second_call] tms evs
       \<and> trace (snd (chat relay_session hi (listen relay_session)))
           = trace (listen relay_session)
             @ [Completion Groq (first_request (listen relay_session) ''llama-3.1-8b-instant'' ''hi'')]
             @ evs @ extra
       \<and> length tms = 2
       \<and> (\<exists>b. extra = [Completion Groq b] \<and> cb_tools b = None
             \<and> cb_messages b = limit_history (messages (listen relay_session)
                   @ [\<lparr>role = User, content = Some ''hi'', tool_calls = None, tool_call_id = None\<rparr>])
                 @ asking [lookup_call, second_call] # tms)"
    by (intro exI[of _ tms] exI[of _ evs] exI[of _ extra]) simp
  have g: "messages (snd (chat relay_session hi (listen relay_session)))
       = [system_message,
          \<lparr>role = User, content = Some ''hi'', tool_calls = None, tool_call_id = None\<rparr>,
          asking [lookup_call, second_call],
          \<lparr>role = Tool,
            content = Some (''Error fetching users: Connection closed - '' @ [CHR 0x22, CHR 0x22]),
            tool_calls = None, tool_call_id = Some ''call_1''\<rparr>,
          \<lparr>role = Tool, content = Some ''{total: 2, count: 2}'', tool_calls = None,
            tool_call_id = Some ''call_3''\<rparr>,
          plain_answer]"
    by code_simp
  have h: "fst (chat relay_session hi (listen relay_session))
       = \<lparr>status = 200, body = ChatPayload (Some ''Hello.'') ''groq'' ''llama-3.1-8b-instant''\<rparr>"
    by code_simp
  from a b c d g h show ?thesis by (intro conjI)
qed

text \<open>
  C5 as stated fails when the invocation itself is rejected: in the first turn of
  \<open>broken_session\<close> \<^verbatim>\<open>callTool\<close> raises, the turn ends with status 500 and the error's
  message, no tool-role message is pushed and no follow-up completion is requested.
\<close>

theorem rejected_invocation_aborts:
  "fst (chat broken_session hi (listen broken_session))
     = \<lparr>status = 500, body = ErrorPayload ''Connection closed''\<rparr>
   \<and> messages (snd (chat broken_session hi (listen broken_session)))
       = [system_message,
          \<lparr>role = User, content = Some ''hi'', tool_calls = None, tool_call_id = None\<rparr>,
          asking [lookup_call]]
   \<and> length (filter is_completion (trace (snd (chat broken_session hi (listen broken_session))))) = 1
   \<and> length (filter is_call (trace (snd (chat broken_session hi (listen broken_session))))) = 1"
  by code_simp

end
